theory Spec2Isabelle
  imports Main "HOL-Library.Char_ord" "HOL-Library.List_Lexorder"
begin

section \<open>JavaScript strings\<close>

text \<open>
  A JavaScript string is modelled as a \<^typ>\<open>string\<close>: the list of its code units, each
  below 256. The case conversions \<open>String.prototype.toLowerCase\<close> and
  \<open>String.prototype.toUpperCase\<close> are not defined here: they are parameters of the
  functions that call them, so what is proved holds for whatever they map a string to.
\<close>

text \<open>\<open>s.startsWith(p)\<close> and \<open>s.includes(p)\<close>.\<close>

fun startsWith :: "string \<Rightarrow> string \<Rightarrow> bool" where
  "startsWith s [] = True"
| "startsWith [] (p # ps) = False"
| "startsWith (c # cs) (p # ps) = (c = p \<and> startsWith cs ps)"

fun str_includes :: "string \<Rightarrow> string \<Rightarrow> bool" where
  "str_includes [] p = (p = [])"
| "str_includes (c # cs) p = (startsWith (c # cs) p \<or> str_includes cs p)"

text \<open>\<open>xs.join(sep)\<close> on an array of strings.\<close>

fun join :: "string list \<Rightarrow> string \<Rightarrow> string" where
  "join [] sep = []"
| "join [x] sep = x"
| "join (x # y # ys) sep = x @ sep @ join (y # ys) sep"

text \<open>
  Truthiness of an optional string: \<open>undefined\<close> and the empty string are falsy.
  \<open>a || b\<close> on optional strings, and a string inside a template literal.
\<close>

fun truthy :: "string option \<Rightarrow> bool" where
  "truthy None = False"
| "truthy (Some s) = (s \<noteq> [])"

definition or_else :: "string option \<Rightarrow> string option \<Rightarrow> string option" where
  "or_else a b = (if truthy a then a else b)"

fun template :: "string option \<Rightarrow> string" where
  "template None = ''undefined''"
| "template (Some s) = s"

section \<open>Regular expressions\<close>

text \<open>
  The fragment of JavaScript regular expressions the finder uses: literal characters,
  the classes \<open>\s\<close>, \<open>\d\<close> and \<open>.\<close>, sequence, \<open>*\<close>, \<open>?\<close> and the assertion
  \<open>$\<close> (no flag is set, so \<open>$\<close> holds at the end of the input only). \<open>Null\<close>,
  \<open>Eps\<close> and \<open>Alt\<close> are needed for the derivatives.
\<close>

datatype regex =
    Null
  | Eps
  | Lit char
  | WhiteSpace
  | Digit
  | AnyChar
  | EndOfInput
  | Seq regex regex
  | Alt regex regex
  | Star regex
  | Opt regex

definition isWhiteSpace :: "char \<Rightarrow> bool" where
  "isWhiteSpace c = ((of_char c :: nat) \<in> {9, 10, 11, 12, 13, 32, 160})"

definition isDigit :: "char \<Rightarrow> bool" where
  "isDigit c = (48 \<le> (of_char c :: nat) \<and> (of_char c :: nat) \<le> 57)"

definition isLineTerminator :: "char \<Rightarrow> bool" where
  "isLineTerminator c = ((of_char c :: nat) \<in> {10, 13})"

text \<open>
  \<open>nullable atEnd r\<close>: \<open>r\<close> matches the empty string at a position that is
  (\<open>atEnd\<close>) or is not the end of the input.
\<close>

fun nullable :: "bool \<Rightarrow> regex \<Rightarrow> bool" where
  "nullable e Null = False"
| "nullable e Eps = True"
| "nullable e (Lit c) = False"
| "nullable e WhiteSpace = False"
| "nullable e Digit = False"
| "nullable e AnyChar = False"
| "nullable e EndOfInput = e"
| "nullable e (Seq r s) = (nullable e r \<and> nullable e s)"
| "nullable e (Alt r s) = (nullable e r \<or> nullable e s)"
| "nullable e (Star r) = True"
| "nullable e (Opt r) = True"

text \<open>The derivative by a character that is read, so the position is not the end.\<close>

fun deriv :: "char \<Rightarrow> regex \<Rightarrow> regex" where
  "deriv c Null = Null"
| "deriv c Eps = Null"
| "deriv c (Lit d) = (if c = d then Eps else Null)"
| "deriv c WhiteSpace = (if isWhiteSpace c then Eps else Null)"
| "deriv c Digit = (if isDigit c then Eps else Null)"
| "deriv c AnyChar = (if isLineTerminator c then Null else Eps)"
| "deriv c EndOfInput = Null"
| "deriv c (Seq r s) =
     (if nullable False r then Alt (Seq (deriv c r) s) (deriv c s) else Seq (deriv c r) s)"
| "deriv c (Alt r s) = Alt (deriv c r) (deriv c s)"
| "deriv c (Star r) = Seq (deriv c r) (Star r)"
| "deriv c (Opt r) = deriv c r"

text \<open>\<open>r\<close> matches some prefix of the rest of the input.\<close>

fun matchHere :: "regex \<Rightarrow> string \<Rightarrow> bool" where
  "matchHere r [] = nullable True r"
| "matchHere r (c # cs) = (nullable False r \<or> matchHere (deriv c r) cs)"

text \<open>\<open>s.match(r)\<close> is not null: \<open>r\<close> matches at some position of \<open>s\<close>.\<close>

fun match :: "string \<Rightarrow> regex \<Rightarrow> bool" where
  "match [] r = matchHere r []"
| "match (c # cs) r = (matchHere r (c # cs) \<or> match cs r)"

fun literal :: "string \<Rightarrow> regex" where
  "literal [] = Eps"
| "literal (c # cs) = Seq (Lit c) (literal cs)"

text \<open>\<open>export const isDefaultPythonKernelSpecSpecName = /python\s\d*.?\d*$/;\<close>\<close>

definition isDefaultPythonKernelSpecSpecName :: regex where
  "isDefaultPythonKernelSpecSpecName =
     Seq (literal ''python'')
       (Seq WhiteSpace (Seq (Star Digit) (Seq (Opt AnyChar) (Seq (Star Digit) EndOfInput))))"

definition oldKernelsSpecFolderName :: string where
  "oldKernelsSpecFolderName = ''__old_vscode_kernelspecs''"

section \<open>The data model\<close>

text \<open>
  A \<open>Uri\<close> is known by its file system path; \<open>Uri.file(p)\<close> is \<open>Uri_file p\<close>. Of a
  \<open>PythonEnvironment\<close> the finder reads the \<open>uri\<close>.
\<close>

datatype Uri = Uri_file (fsPath: string)

record PythonEnvironment =
  uri :: Uri

datatype error = Error string

datatype registration = registeredByNewVersionOfExt | registeredByOldVersionOfExt

text \<open>
  The \<open>metadata\<close> of a kernel spec: the nested \<open>vscode\<close> and \<open>interpreter\<close> objects
  and the legacy top-level \<open>originalSpecFile\<close>.
\<close>

record vscode_metadata =
  originalSpecFile :: "string option"
  originalDisplayName :: "string option"

record interpreter_metadata =
  path :: "string option"

record kernel_metadata =
  vscode :: "vscode_metadata option"
  legacy_originalSpecFile :: "string option"
  interpreter :: "interpreter_metadata option"

text \<open>
  \<open>IJupyterKernelSpec\<close>, which is also the type the parsed \<open>kernel.json\<close> is given
  (\<open>ReadWrite<IJupyterKernelSpec>\<close>). The name is optional: the loader falls back to
  the directory's name when the file gives none.
\<close>

record IJupyterKernelSpec =
  name :: "string option"
  display_name :: string
  language :: "string option"
  argv :: "string list"
  metadata :: "kernel_metadata option"
  specFile :: "string option"
  interpreterPath :: "string option"
  isRegisteredByVSC :: "registration option"

text \<open>
  The file system service \<open>IFileSystemNode\<close>, a collaborator: its operations over a
  file system state \<open>'fs\<close>. A failing operation returns its error and the state it left.
\<close>

record 'fs IFileSystemNode =
  fs_exists :: "'fs \<Rightarrow> Uri \<Rightarrow> bool"
  fs_readFile :: "'fs \<Rightarrow> Uri \<Rightarrow> error + string"
  fs_createDirectory :: "Uri \<Rightarrow> 'fs \<Rightarrow> (error + unit) \<times> 'fs"
  fs_copy :: "Uri \<Rightarrow> Uri \<Rightarrow> 'fs \<Rightarrow> (error + unit) \<times> 'fs"
  fs_delete :: "Uri \<Rightarrow> 'fs \<Rightarrow> (error + unit) \<times> 'fs"

text \<open>
  The functions the finder imports from modules that are not among the sources
  (\<open>vscode-path/path\<close>, \<open>vscode-path/resources\<close>, \<open>kernels/helpers\<close>),
  \<open>JSON.parse\<close> and \<open>String.prototype.toLowerCase\<close>, taken as parameters.
\<close>

record platform =
  path_basename :: "string \<Rightarrow> string"
  path_dirname :: "string \<Rightarrow> string"
  path_join :: "string list \<Rightarrow> string"
  getComparisonKey :: "Uri \<Rightarrow> string"
  isEqual :: "Uri \<Rightarrow> Uri \<Rightarrow> bool"
  isEqualOrParent :: "Uri \<Rightarrow> Uri \<Rightarrow> bool"
  joinPath :: "Uri \<Rightarrow> string \<Rightarrow> Uri"
  JSON_parse :: "string \<Rightarrow> error + IJupyterKernelSpec"
  getInterpreterKernelSpecName :: "PythonEnvironment \<Rightarrow> string"
  getKernelRegistrationInfo :: "IJupyterKernelSpec \<Rightarrow> registration option"
  toLowerCase :: "string \<Rightarrow> string"

text \<open>
  A cancellation token, as the code observes it: \<open>isCancellationRequested n\<close> is what
  the \<open>n\<close>-th read of the flag in a call returns.
\<close>

type_synonym CancellationToken = "nat \<Rightarrow> bool"

text \<open>
  Modelled from the spec: the constant \<open>PYTHON_LANGUAGE\<close> of
  \<open>platform/common/constants\<close> (the language is Python).
\<close>

definition PYTHON_LANGUAGE :: string where
  "PYTHON_LANGUAGE = ''python''"

section \<open>Loading a kernel spec\<close>

text \<open>
  Modelled from the spec: the constructor of \<open>JupyterKernelSpec\<close>
  (\<open>jupyter/jupyterKernelSpec\<close>), which keeps the fields of the parsed record and
  stores the spec file, the interpreter path and the registration it is given.
\<close>

definition JupyterKernelSpec ::
  "IJupyterKernelSpec \<Rightarrow> string \<Rightarrow> string option \<Rightarrow> registration option \<Rightarrow> IJupyterKernelSpec" where
  "JupyterKernelSpec specModel file ipath reg =
     specModel\<lparr>specFile := Some file, interpreterPath := ipath, isRegisteredByVSC := reg\<rparr>"

text \<open>
  The launch arguments that are not the default ones:
  \<open>argv.slice(1).map((arg) => arg.toLowerCase()).filter((arg) => ![...].includes(arg))\<close>.
\<close>

definition nonDefaultArgv :: "platform \<Rightarrow> string list \<Rightarrow> string list" where
  "nonDefaultArgv pf args =
     filter (\<lambda>arg. arg \<notin> set [''-m'', ''ipykernel'', ''ipykernel_launcher'', ''-f'', ''{connection_file}''])
       (map (toLowerCase pf) (drop 1 args))"

text \<open>The name after the display-name heuristic (the \<open>if\<close> on the default name).\<close>

definition nameWithArgv :: "platform \<Rightarrow> IJupyterKernelSpec \<Rightarrow> string option" where
  "nameWithArgv pf kernelJson =
     (let isDefaultPythonName =
            match (toLowerCase pf (display_name kernelJson)) isDefaultPythonKernelSpecSpecName
      in if \<not> isDefaultPythonName \<and> language kernelJson = Some PYTHON_LANGUAGE
            \<and> length (argv kernelJson) > 2
         then (let argv' = nonDefaultArgv pf (argv kernelJson)
               in if argv' \<noteq> [] then Some (template (name kernelJson) @ ''.'' @ join argv' ''#'')
                  else name kernelJson)
         else name kernelJson)"

text \<open>The normalisation of the metadata: the four statements on \<open>kernelJson.metadata\<close>.\<close>

definition normalizeMetadata :: "string \<Rightarrow> IJupyterKernelSpec \<Rightarrow> kernel_metadata" where
  "normalizeMetadata specFsPath kernelJson =
     (let md = (case metadata kernelJson of
                  None \<Rightarrow> \<lparr>vscode = None, legacy_originalSpecFile = None, interpreter = None\<rparr>
                | Some m \<Rightarrow> m);
          vs = (case vscode md of
                  None \<Rightarrow> \<lparr>originalSpecFile = None, originalDisplayName = None\<rparr>
                | Some v \<Rightarrow> v);
          vs1 = (if \<not> truthy (originalSpecFile vs)
                 then vs\<lparr>originalSpecFile := Some specFsPath\<rparr> else vs);
          vs2 = (if \<not> truthy (originalDisplayName vs1)
                 then vs1\<lparr>originalDisplayName := Some (display_name kernelJson)\<rparr> else vs1)
      in if truthy (legacy_originalSpecFile md)
         then md\<lparr>vscode := Some (vs2\<lparr>originalSpecFile := legacy_originalSpecFile md\<rparr>),
                 legacy_originalSpecFile := None\<rparr>
         else md\<lparr>vscode := Some vs2\<rparr>)"

text \<open>\<open>interpreter?.uri.fsPath || kernelJson?.metadata?.interpreter?.path\<close>\<close>

definition interpreterPathOf ::
  "PythonEnvironment option \<Rightarrow> IJupyterKernelSpec \<Rightarrow> string option" where
  "interpreterPathOf interp kernelJson =
     or_else (map_option (\<lambda>i. fsPath (uri i)) interp)
       (case metadata kernelJson of
          None \<Rightarrow> None
        | Some m \<Rightarrow> (case interpreter m of None \<Rightarrow> None | Some i \<Rightarrow> path i))"

text \<open>
  \<open>loadKernelSpec(specPath, fs, cancelToken, interpreter)\<close>; \<open>None\<close> is
  \<open>undefined\<close>. The file system is read in the state \<open>st\<close>.
\<close>

definition loadKernelSpec ::
  "platform \<Rightarrow> 'fs IFileSystemNode \<Rightarrow> 'fs \<Rightarrow> Uri \<Rightarrow> CancellationToken
     \<Rightarrow> PythonEnvironment option \<Rightarrow> IJupyterKernelSpec option" where
  "loadKernelSpec pf fs st specPath cancelToken interp =
     (if str_includes (fsPath specPath) oldKernelsSpecFolderName then None
      else case fs_readFile fs st specPath of
        Inl ex \<Rightarrow> None
      | Inr text \<Rightarrow>
        (case JSON_parse pf text of
           Inl ex \<Rightarrow> None
         | Inr parsed \<Rightarrow>
           if cancelToken 0 then None
           else let kernelJson1 = parsed\<lparr>name :=
                      (case interp of
                         Some i \<Rightarrow> Some (getInterpreterKernelSpecName pf i)
                       | None \<Rightarrow> name parsed)\<rparr>
             in if cancelToken 1 then None
                else let kernelJson2 = kernelJson1\<lparr>name := nameWithArgv pf kernelJson1\<rparr>;
                         kernelJson = kernelJson2\<lparr>metadata :=
                           Some (normalizeMetadata (fsPath specPath) kernelJson2)\<rparr>;
                         kernelSpec0 = JupyterKernelSpec kernelJson (fsPath specPath)
                           (interpreterPathOf interp kernelJson)
                           (getKernelRegistrationInfo pf kernelJson);
                         kernelSpec = kernelSpec0\<lparr>name :=
                           or_else (name kernelJson)
                             (Some (path_basename pf (path_dirname pf (fsPath specPath))))\<rparr>;
                         interpreterPath' = interpreterPathOf interp kernelJson
                  in case interpreterPath' of
                       None \<Rightarrow> Some kernelSpec
                     | Some ip \<Rightarrow>
                         if ip \<noteq> [] \<and> \<not> fs_exists fs st (Uri_file ip) then None
                         else Some kernelSpec))"

section \<open>Listing kernels\<close>

text \<open>
  \<open>LocalKernelConnectionMetadata\<close>: the union of \<open>PythonKernelConnectionMetadata\<close>
  (kind \<open>startUsingPythonInterpreter\<close>, the interpreter is required) and
  \<open>LocalKernelSpecConnectionMetadata\<close> (kind \<open>startUsingLocalKernelSpec\<close>, the
  interpreter is optional). The constructor is the \<open>kind\<close>.
\<close>

datatype LocalKernelConnectionMetadata =
    startUsingPythonInterpreter (id': string) (kernelSpec: IJupyterKernelSpec)
      (py_interpreter: PythonEnvironment)
  | startUsingLocalKernelSpec (id': string) (kernelSpec: IJupyterKernelSpec)
      (spec_interpreter: "PythonEnvironment option")

text \<open>
  The loop that fills \<open>distinctKernelMetadata\<close>, a \<open>Map\<close>: an association list in
  insertion order, which is the order \<open>values()\<close> gives.
\<close>

fun distinctKernelMetadata ::
  "LocalKernelConnectionMetadata list \<Rightarrow> (string \<times> LocalKernelConnectionMetadata) list
     \<Rightarrow> (string \<times> LocalKernelConnectionMetadata) list" where
  "distinctKernelMetadata [] m = m"
| "distinctKernelMetadata (k # ks) m =
     distinctKernelMetadata ks (if map_of m (id' k) = None then m @ [(id' k, k)] else m)"

text \<open>
  The function given to \<open>sort\<close>. \<open>toUpperCase\<close> is
  \<open>String.prototype.toUpperCase\<close>, a parameter. Its results are only compared with
  each other, so they may be of any linearly ordered type \<open>'u\<close>: for JavaScript, the
  strings in the order of their code units, a proper prefix being smaller.
\<close>

definition compareDisplayName ::
  "(string \<Rightarrow> 'u::linorder) \<Rightarrow> LocalKernelConnectionMetadata \<Rightarrow> LocalKernelConnectionMetadata
     \<Rightarrow> int" where
  "compareDisplayName toUpperCase a b =
     (let nameA = toUpperCase (display_name (kernelSpec a));
          nameB = toUpperCase (display_name (kernelSpec b))
      in if nameA = nameB then 0 else if nameA < nameB then - 1 else 1)"

text \<open>
  \<open>Array.prototype.sort\<close> with a comparison function is a stable sort; with a
  consistent comparison function every stable sort gives the same array. Here it is
  the insertion sort.
\<close>

fun insertSorted :: "('a \<Rightarrow> 'a \<Rightarrow> int) \<Rightarrow> 'a \<Rightarrow> 'a list \<Rightarrow> 'a list" where
  "insertSorted cmp x [] = [x]"
| "insertSorted cmp x (y # ys) =
     (if cmp x y \<le> 0 then x # y # ys else y # insertSorted cmp x ys)"

definition sortBy :: "('a \<Rightarrow> 'a \<Rightarrow> int) \<Rightarrow> 'a list \<Rightarrow> 'a list" where
  "sortBy cmp xs = foldr (insertSorted cmp) xs []"

text \<open>The function given to \<open>finder().then\<close>.\<close>

definition distinctSorted ::
  "(string \<Rightarrow> 'u::linorder) \<Rightarrow> LocalKernelConnectionMetadata list
     \<Rightarrow> LocalKernelConnectionMetadata list" where
  "distinctSorted toUpperCase items =
     sortBy (compareDisplayName toUpperCase) (map snd (distinctKernelMetadata items []))"

text \<open>
  An entry of \<open>kernelSpecCache\<close>. A promise is modelled by what it settles to:
  \<open>Inl\<close> when it rejects.
\<close>

record kernelSpecCacheEntry =
  usesPython :: bool
  wasPythonExtInstalled :: bool
  promise :: "error + LocalKernelConnectionMetadata list"

text \<open>
  The search of \<open>listKernelsWithCache\<close>: \<open>finder().then(...)\<close> and the
  \<open>kernelSpecCache.set\<close> that follows. \<open>finder\<close> is what \<open>finder()\<close> settles to.
\<close>

definition searchAndStore ::
  "(string \<Rightarrow> 'u::linorder) \<Rightarrow> bool \<Rightarrow> (string \<rightharpoonup> kernelSpecCacheEntry) \<Rightarrow> string \<Rightarrow> bool
     \<Rightarrow> error + LocalKernelConnectionMetadata list
     \<Rightarrow> (error + LocalKernelConnectionMetadata list) \<times> (string \<rightharpoonup> kernelSpecCacheEntry)" where
  "searchAndStore toUpperCase isPythonExtensionInstalled kernelSpecCache cacheKey
       dependsOnPythonExtension finder =
     (let promise' = (case finder of
                        Inl ex \<Rightarrow> Inl ex
                      | Inr items \<Rightarrow> Inr (distinctSorted toUpperCase items))
      in (promise',
          kernelSpecCache(cacheKey \<mapsto>
            \<lparr>usesPython = dependsOnPythonExtension,
             wasPythonExtInstalled = isPythonExtensionInstalled,
             promise = promise'\<rparr>)))"

text \<open>
  \<open>listKernelsWithCache(cacheKey, dependsOnPythonExtension, finder, ignoreCache)\<close>:
  the result is what the returned promise settles to, with the new
  \<open>kernelSpecCache\<close>.
\<close>

definition listKernelsWithCache ::
  "(string \<Rightarrow> 'u::linorder) \<Rightarrow> bool \<Rightarrow> (string \<rightharpoonup> kernelSpecCacheEntry) \<Rightarrow> string \<Rightarrow> bool
     \<Rightarrow> error + LocalKernelConnectionMetadata list \<Rightarrow> bool
     \<Rightarrow> (error + LocalKernelConnectionMetadata list) \<times> (string \<rightharpoonup> kernelSpecCacheEntry)" where
  "listKernelsWithCache toUpperCase isPythonExtensionInstalled kernelSpecCache cacheKey
       dependsOnPythonExtension finder ignoreCache =
     (case kernelSpecCache cacheKey of
        Some result \<Rightarrow>
          if \<not> ignoreCache
          then (if usesPython result \<and> wasPythonExtInstalled result = isPythonExtensionInstalled
                then (promise result, kernelSpecCache)
                else if \<not> usesPython result then (promise result, kernelSpecCache)
                else searchAndStore toUpperCase isPythonExtensionInstalled kernelSpecCache cacheKey
                       dependsOnPythonExtension finder)
          else searchAndStore toUpperCase isPythonExtensionInstalled kernelSpecCache cacheKey
                 dependsOnPythonExtension finder
      | None \<Rightarrow>
          searchAndStore toUpperCase isPythonExtensionInstalled kernelSpecCache cacheKey
            dependsOnPythonExtension finder)"

section \<open>The persisted cache\<close>

text \<open>
  What the \<open>Memento\<close> \<open>globalState\<close> stores under a key: a string (the old kernel
  specs folder) or the object \<open>{ kernels, extensionVersion }\<close>, whose \<open>kernels\<close>
  is \<open>None\<close> when it is not an array. \<open>'w\<close> is the serialized form of a connection.
\<close>

datatype 'w memento_value =
    StringValue string
  | KernelsValue (kernels: "'w list option") (extensionVersion: string)

text \<open>\<open>isValidCachedKernel(kernel)\<close>, the file system being in the state \<open>st\<close>.\<close>

fun isValidCachedKernel ::
  "'fs IFileSystemNode \<Rightarrow> 'fs \<Rightarrow> LocalKernelConnectionMetadata \<Rightarrow> bool" where
  "isValidCachedKernel fs st (startUsingPythonInterpreter i k interp) =
     fs_exists fs st (uri interp)"
| "isValidCachedKernel fs st (startUsingLocalKernelSpec i k interp) =
     (let r = (case specFile k of
                 Some f \<Rightarrow> if f \<noteq> [] then fs_exists fs st (Uri_file f) else True
               | None \<Rightarrow> True)
      in case interp of
           Some i' \<Rightarrow> if r then fs_exists fs st (uri i') else True
         | None \<Rightarrow> True)"

text \<open>
  \<open>listKernelsFirstTimeFromMemento(cacheKey)\<close>. The valid kernels are given in the
  order of the stored list; the order in which the validations finish, which is the
  order of \<open>validValues\<close>, is not modelled.
\<close>

definition listKernelsFirstTimeFromMemento ::
  "('w \<Rightarrow> LocalKernelConnectionMetadata) \<Rightarrow> 'fs IFileSystemNode \<Rightarrow> 'fs
     \<Rightarrow> (string \<rightharpoonup> 'w memento_value) \<Rightarrow> string \<Rightarrow> string
     \<Rightarrow> LocalKernelConnectionMetadata list" where
  "listKernelsFirstTimeFromMemento deserializeKernelConnection fs st globalState
       env_extensionVersion cacheKey =
     (let cache = (case globalState cacheKey of
                     None \<Rightarrow> KernelsValue (Some []) []
                   | Some v \<Rightarrow> v);
          kernels' = (case cache of
                        KernelsValue (Some ks) v \<Rightarrow>
                          if v = env_extensionVersion then map deserializeKernelConnection ks
                          else []
                      | _ \<Rightarrow> [])
      in filter (isValidCachedKernel fs st) kernels')"

section \<open>The finder's state\<close>

text \<open>\<open>KernelSpecFileWithContainingInterpreter\<close>\<close>

record KernelSpecFileWithContainingInterpreter =
  file_interpreter :: "PythonEnvironment option"
  kernelSpecFile :: Uri

text \<open>
  The fields of \<open>LocalKernelSpecFinderBase\<close> that \<open>getKernelSpec\<close> and
  \<open>deleteOldKernelSpec\<close> read and write, the file system behind \<open>this.fs\<close> among
  them. A promise in \<open>pathToKernelSpec\<close> is modelled by what it resolves to.
\<close>

record ('fs, 'w) LocalKernelSpecFinderBase =
  oldKernelSpecsFolder_field :: "string option"
  globalState :: "string \<rightharpoonup> 'w memento_value"
  cache :: "KernelSpecFileWithContainingInterpreter list option"
  pathToKernelSpec :: "string \<rightharpoonup> IJupyterKernelSpec option"
  fileSystem :: "'fs"

text \<open>The setter of \<open>oldKernelSpecsFolder\<close>.\<close>

definition set_oldKernelSpecsFolder ::
  "string \<Rightarrow> ('fs, 'w) LocalKernelSpecFinderBase \<Rightarrow> ('fs, 'w) LocalKernelSpecFinderBase" where
  "set_oldKernelSpecsFolder v this =
     this\<lparr>oldKernelSpecsFolder_field := Some v,
          globalState := (globalState this)(''OLD_KERNEL_SPECS_FOLDER__'' \<mapsto> StringValue v)\<rparr>"

section \<open>Archiving an old kernel spec\<close>

definition destinationFolder :: "platform \<Rightarrow> string \<Rightarrow> string" where
  "destinationFolder pf kernelSpecFile' =
     path_join pf [path_dirname pf (path_dirname pf kernelSpecFile'), oldKernelsSpecFolderName]"

definition destinationFile :: "platform \<Rightarrow> string \<Rightarrow> string" where
  "destinationFile pf kernelSpecFile' =
     (let kernelSpecFolderName = path_basename pf (path_dirname pf kernelSpecFile')
      in path_join pf [destinationFolder pf kernelSpecFile', kernelSpecFolderName,
                       path_basename pf kernelSpecFile'])"

text \<open>
  \<open>deleteOldKernelSpec(kernelSpecFile)\<close>, run to its end: \<open>Inl\<close> when the promise
  rejects. The result of \<open>fs.copy\<close> is dropped by \<open>.catch(noop)\<close>.
\<close>

definition deleteOldKernelSpec ::
  "platform \<Rightarrow> 'fs IFileSystemNode \<Rightarrow> string \<Rightarrow> ('fs, 'w) LocalKernelSpecFinderBase
     \<Rightarrow> (error + unit) \<times> ('fs, 'w) LocalKernelSpecFinderBase" where
  "deleteOldKernelSpec pf fs kernelSpecFile' this =
     (let this1 = set_oldKernelSpecsFolder (destinationFolder pf kernelSpecFile') this;
          dest = destinationFile pf kernelSpecFile'
      in case fs_createDirectory fs (Uri_file (path_dirname pf dest)) (fileSystem this1) of
           (Inl ex, st1) \<Rightarrow> (Inl ex, this1\<lparr>fileSystem := st1\<rparr>)
         | (Inr u, st1) \<Rightarrow>
             (case fs_copy fs (Uri_file kernelSpecFile') (Uri_file dest) st1 of
                (copied, st2) \<Rightarrow>
                  (case fs_delete fs (Uri_file kernelSpecFile') st2 of
                     (Inl ex, st3) \<Rightarrow> (Inl ex, this1\<lparr>fileSystem := st3\<rparr>)
                   | (Inr u', st3) \<Rightarrow> (Inr (), this1\<lparr>fileSystem := st3\<rparr>))))"

section \<open>The kernel spec of a path\<close>

text \<open>
  \<open>shouldDeleteKernelSpec\<close> of \<open>getKernelSpec\<close>, for a kernel spec that was loaded.
\<close>

definition shouldDeleteKernelSpec ::
  "platform \<Rightarrow> IJupyterKernelSpec \<Rightarrow> Uri option \<Rightarrow> bool" where
  "shouldDeleteKernelSpec pf kernelSpec' globalSpecRootPath =
     (case globalSpecRootPath of
        None \<Rightarrow> False
      | Some root \<Rightarrow>
          getKernelRegistrationInfo pf kernelSpec' \<noteq> None
          \<and> (case specFile kernelSpec' of
                None \<Rightarrow> False
              | Some f \<Rightarrow> f \<noteq> [] \<and> isEqualOrParent pf (Uri_file f) root))"

text \<open>
  \<open>getKernelSpec(specPath, cancelToken, interpreter, globalSpecRootPath)\<close>, each call
  run to its end before the next one starts. \<open>deleteOldKernelSpec(...).catch(noop)\<close>
  is run to its end where it is started, and its error is dropped.
\<close>

definition getKernelSpec ::
  "platform \<Rightarrow> 'fs IFileSystemNode \<Rightarrow> Uri \<Rightarrow> CancellationToken \<Rightarrow> PythonEnvironment option
     \<Rightarrow> Uri option \<Rightarrow> ('fs, 'w) LocalKernelSpecFinderBase
     \<Rightarrow> IJupyterKernelSpec option \<times> ('fs, 'w) LocalKernelSpecFinderBase" where
  "getKernelSpec pf fs specPath cancelToken interp globalSpecRootPath this =
     (if str_includes (fsPath specPath) oldKernelsSpecFolderName then (None, this)
      else let key = getComparisonKey pf specPath;
               this1 = (case pathToKernelSpec this key of
                          None \<Rightarrow> this\<lparr>pathToKernelSpec := (pathToKernelSpec this)(key \<mapsto>
                                     loadKernelSpec pf fs (fileSystem this) specPath cancelToken interp)\<rparr>
                        | Some loaded \<Rightarrow> this);
               kernelSpec' = (case pathToKernelSpec this1 key of
                               None \<Rightarrow> None
                             | Some loaded \<Rightarrow> loaded);
               shouldDelete = (case kernelSpec' of
                                 None \<Rightarrow> False
                               | Some k \<Rightarrow> shouldDeleteKernelSpec pf k globalSpecRootPath)
           in if kernelSpec' \<noteq> None \<and> \<not> shouldDelete then (kernelSpec', this1)
              else let this2 = (case kernelSpec' of
                                  None \<Rightarrow> this1
                                | Some k \<Rightarrow>
                                    (case specFile k of
                                       None \<Rightarrow> this1
                                     | Some f \<Rightarrow>
                                         if f \<noteq> [] \<and> shouldDelete
                                         then snd (deleteOldKernelSpec pf fs f this1)
                                         else this1))
                   in (None,
                       this2\<lparr>pathToKernelSpec := (pathToKernelSpec this2)(key := None),
                             cache := map_option
                               (filter (\<lambda>itemPath. isEqual pf (kernelSpecFile itemPath) specPath))
                               (cache this2)\<rparr>))"

section \<open>Searching a path for kernel specs\<close>

text \<open>
  \<open>findKernelSpecsInPath\<close> starts an asynchronous search and returns its promise
  while \<open>fs.exists\<close> is still pending, so calls and the answers of the file system
  interleave. The model is a state machine. A promise is the index of its search in
  \<open>searches\<close>; a search waits for \<open>fs.exists\<close>, then for \<open>fs.searchLocal\<close>, then
  is settled (\<open>Inl\<close> when the promise rejects). The answers of the file system and
  the cancellation of a token are events. \<open>fs.exists\<close> does not reject.
\<close>

datatype searchItem =
    SearchPath Uri
  | SearchInterpreter PythonEnvironment Uri

datatype stage =
    AwaitingExists
  | AwaitingSearchLocal
  | Settled "error + KernelSpecFileWithContainingInterpreter list"

record search =
  search_item :: searchItem
  search_token :: nat
  search_stage :: stage

text \<open>
  \<open>listeners\<close> holds the callbacks registered by \<open>onCancellationRequested\<close> and not
  yet disposed: the token, the cache key and the promise of each.
  \<open>searchLocalCalls\<close> records every call of \<open>fs.searchLocal\<close>: the promise whose
  search made it and the path searched.
\<close>

record pathSearch =
  findKernelSpecsInPathCache :: "string \<rightharpoonup> nat"
  searches :: "search list"
  listeners :: "(nat \<times> string \<times> nat) list"
  cancelled :: "nat set"
  searchLocalCalls :: "(nat \<times> string) list"

definition cacheKeyOf :: "platform \<Rightarrow> searchItem \<Rightarrow> string" where
  "cacheKeyOf pf item =
     (case item of
        SearchPath u \<Rightarrow> getComparisonKey pf u
      | SearchInterpreter i u \<Rightarrow> getComparisonKey pf (uri i) @ getComparisonKey pf u)"

definition searchPathOf :: "searchItem \<Rightarrow> Uri" where
  "searchPathOf item = (case item of SearchPath u \<Rightarrow> u | SearchInterpreter i u \<Rightarrow> u)"

definition interpreterOf :: "searchItem \<Rightarrow> PythonEnvironment option" where
  "interpreterOf item = (case item of SearchPath u \<Rightarrow> None | SearchInterpreter i u \<Rightarrow> Some i)"

text \<open>
  The synchronous part of \<open>findKernelSpecsInPath(searchItem, cancelToken)\<close>: the
  promise it returns and the new state.
\<close>

definition findKernelSpecsInPath ::
  "platform \<Rightarrow> searchItem \<Rightarrow> nat \<Rightarrow> pathSearch \<Rightarrow> nat \<times> pathSearch" where
  "findKernelSpecsInPath pf item cancelToken s =
     (let cacheKey = cacheKeyOf pf item
      in case findKernelSpecsInPathCache s cacheKey of
           Some previousPromise \<Rightarrow> (previousPromise, s)
         | None \<Rightarrow>
             (let promise' = length (searches s)
              in (promise',
                  s\<lparr>searches := searches s @
                       [\<lparr>search_item = item, search_token = cancelToken,
                         search_stage = AwaitingExists\<rparr>],
                     findKernelSpecsInPathCache :=
                       (findKernelSpecsInPathCache s)(cacheKey \<mapsto> promise'),
                     listeners := listeners s @ [(cancelToken, cacheKey, promise')]\<rparr>)))"

text \<open>
  The guarded delete of both callbacks:
  \<open>if (cache.get(cacheKey) === promise) cache.delete(cacheKey)\<close>.
\<close>

definition evict :: "string \<Rightarrow> nat \<Rightarrow> (string \<rightharpoonup> nat) \<Rightarrow> (string \<rightharpoonup> nat)" where
  "evict cacheKey promise' m = (if m cacheKey = Some promise' then m(cacheKey := None) else m)"

text \<open>
  A promise settles: \<open>finally\<close> disposes its cancellation listener, and \<open>catch\<close>
  evicts the cache entry when it rejected.
\<close>

definition settle ::
  "platform \<Rightarrow> nat \<Rightarrow> error + KernelSpecFileWithContainingInterpreter list \<Rightarrow> pathSearch
     \<Rightarrow> pathSearch" where
  "settle pf p res s =
     (let t = searches s ! p;
          s1 = s\<lparr>searches := (searches s)[p := t\<lparr>search_stage := Settled res\<rparr>],
                 listeners := filter (\<lambda>(tok, k, q). q \<noteq> p) (listeners s)\<rparr>
      in case res of
           Inl ex \<Rightarrow>
             s1\<lparr>findKernelSpecsInPathCache :=
                  evict (cacheKeyOf pf (search_item t)) p (findKernelSpecsInPathCache s1)\<rparr>
         | Inr files \<Rightarrow> s1)"

text \<open>\<open>fs.exists(searchPath)\<close> answers \<open>b\<close> to the search of promise \<open>p\<close>.\<close>

definition existsAnswered :: "platform \<Rightarrow> nat \<Rightarrow> bool \<Rightarrow> pathSearch \<Rightarrow> pathSearch" where
  "existsAnswered pf p b s =
     (if p < length (searches s) \<and> search_stage (searches s ! p) = AwaitingExists
      then (let t = searches s ! p
            in if b
               then (if search_token t \<in> cancelled s then settle pf p (Inr []) s
                     else s\<lparr>searches := (searches s)[p := t\<lparr>search_stage := AwaitingSearchLocal\<rparr>],
                            searchLocalCalls := searchLocalCalls s @
                              [(p, fsPath (searchPathOf (search_item t)))]\<rparr>)
               else settle pf p (Inr []) s)
      else s)"

text \<open>\<open>fs.searchLocal\<close> answers the search of promise \<open>p\<close>, or rejects.\<close>

definition searchLocalAnswered ::
  "platform \<Rightarrow> nat \<Rightarrow> error + string list \<Rightarrow> pathSearch \<Rightarrow> pathSearch" where
  "searchLocalAnswered pf p answer s =
     (if p < length (searches s) \<and> search_stage (searches s ! p) = AwaitingSearchLocal
      then (let t = searches s ! p
            in case answer of
                 Inl ex \<Rightarrow> settle pf p (Inl ex) s
               | Inr files \<Rightarrow>
                   settle pf p
                     (Inr (map (\<lambda>item. \<lparr>file_interpreter = interpreterOf (search_item t),
                                         kernelSpecFile = joinPath pf (searchPathOf (search_item t)) item\<rparr>)
                             files)) s)
      else s)"

text \<open>
  Cancellation of a token is requested: its flag is set and the callbacks registered
  on it run, each evicting the entry of its promise.
\<close>

definition cancellationRequested :: "nat \<Rightarrow> pathSearch \<Rightarrow> pathSearch" where
  "cancellationRequested tok s =
     s\<lparr>cancelled := insert tok (cancelled s),
       findKernelSpecsInPathCache :=
         fold (\<lambda>(t, k, q) m. if t = tok then evict k q m else m) (listeners s)
           (findKernelSpecsInPathCache s),
       listeners := filter (\<lambda>(t, k, q). t \<noteq> tok) (listeners s)\<rparr>"

datatype event =
    Call searchItem nat
  | ExistsAnswered nat bool
  | SearchLocalAnswered nat "error + string list"
  | CancellationRequested nat

fun step :: "platform \<Rightarrow> pathSearch \<Rightarrow> event \<Rightarrow> pathSearch" where
  "step pf s (Call item tok) = snd (findKernelSpecsInPath pf item tok s)"
| "step pf s (ExistsAnswered p b) = existsAnswered pf p b s"
| "step pf s (SearchLocalAnswered p answer) = searchLocalAnswered pf p answer s"
| "step pf s (CancellationRequested tok) = cancellationRequested tok s"

definition run :: "platform \<Rightarrow> pathSearch \<Rightarrow> event list \<Rightarrow> pathSearch" where
  "run pf s es = foldl (step pf) s es"

definition newPathSearch :: pathSearch where
  "newPathSearch =
     \<lparr>findKernelSpecsInPathCache = Map.empty, searches = [], listeners = [],
      cancelled = {}, searchLocalCalls = []\<rparr>"

text \<open>The calls of \<open>fs.searchLocal\<close> made by the search of promise \<open>p\<close>.\<close>

definition searchLocalCallsOf :: "nat \<Rightarrow> pathSearch \<Rightarrow> (nat \<times> string) list" where
  "searchLocalCallsOf p s = filter (\<lambda>c. fst c = p) (searchLocalCalls s)"

text \<open>
  Invariants of the states the machine reaches. Every listener belongs to a search
  that was started; a cache entry holds the promise of a search for its key; a search
  calls \<open>fs.searchLocal\<close> at most once, and not before \<open>fs.exists\<close> has answered.
\<close>

definition listenersOk :: "pathSearch \<Rightarrow> bool" where
  "listenersOk s = (\<forall>(t, k, q) \<in> set (listeners s). q < length (searches s))"

definition cacheOk :: "platform \<Rightarrow> pathSearch \<Rightarrow> bool" where
  "cacheOk pf s =
     (\<forall>k q. findKernelSpecsInPathCache s k = Some q \<longrightarrow>
        q < length (searches s) \<and> cacheKeyOf pf (search_item (searches s ! q)) = k)"

definition callsOk :: "pathSearch \<Rightarrow> bool" where
  "callsOk s =
     (\<forall>q. length (searchLocalCallsOf q s) \<le> 1
        \<and> (length (searches s) \<le> q \<longrightarrow> searchLocalCallsOf q s = [])
        \<and> (q < length (searches s) \<longrightarrow> search_stage (searches s ! q) = AwaitingExists
             \<longrightarrow> searchLocalCallsOf q s = [])
        \<and> (q < length (searches s) \<longrightarrow> search_stage (searches s ! q) = AwaitingSearchLocal
             \<longrightarrow> length (searchLocalCallsOf q s) = 1))"


section \<open>A platform and a file system for the examples\<close>

text \<open>
  Case conversions for the examples: those of the ASCII letters, every other code unit
  left as it is. On ASCII strings, which are all the examples use, they are
  \<open>String.prototype.toLowerCase\<close> and \<open>String.prototype.toUpperCase\<close>. The
  upper-cased strings of the examples are compared code unit by code unit, a proper
  prefix being smaller: the lexicographic order of \<^typ>\<open>char list\<close>.
\<close>

definition ascii_toLowerCase_char :: "char \<Rightarrow> char" where
  "ascii_toLowerCase_char c =
     (let n = (of_char c :: nat) in if 65 \<le> n \<and> n \<le> 90 then char_of (n + 32) else c)"

definition ascii_toUpperCase_char :: "char \<Rightarrow> char" where
  "ascii_toUpperCase_char c =
     (let n = (of_char c :: nat) in if 97 \<le> n \<and> n \<le> 122 then char_of (n - 32) else c)"

definition ascii_toLowerCase :: "string \<Rightarrow> string" where
  "ascii_toLowerCase s = map ascii_toLowerCase_char s"

definition ascii_toUpperCase :: "string \<Rightarrow> string" where
  "ascii_toUpperCase s = map ascii_toUpperCase_char s"

text \<open>
  Path functions that agree with the POSIX ones on absolute, normalised paths with no
  trailing separator; keys and equality of \<open>Uri\<close>s by their paths.
\<close>

definition example_dirname :: "string \<Rightarrow> string" where
  "example_dirname p =
     (if CHR ''/'' \<notin> set p then ''.''
      else (let d = rev (drop 1 (dropWhile (\<lambda>c. c \<noteq> CHR ''/'') (rev p)))
            in if d = [] then ''/'' else d))"

definition example_basename :: "string \<Rightarrow> string" where
  "example_basename p = rev (takeWhile (\<lambda>c. c \<noteq> CHR ''/'') (rev p))"

definition example_platform :: "(string \<Rightarrow> error + IJupyterKernelSpec) \<Rightarrow> platform" where
  "example_platform parse =
     \<lparr>path_basename = example_basename,
      path_dirname = example_dirname,
      path_join = (\<lambda>parts. join parts ''/''),
      getComparisonKey = fsPath,
      isEqual = (\<lambda>a b. a = b),
      isEqualOrParent = (\<lambda>a b. a = b \<or> startsWith (fsPath a) (fsPath b @ ''/'')),
      joinPath = (\<lambda>u item. Uri_file (fsPath u @ ''/'' @ item)),
      JSON_parse = parse,
      getInterpreterKernelSpecName = (\<lambda>i. ''python'' @ fsPath (uri i)),
      getKernelRegistrationInfo = isRegisteredByVSC,
      toLowerCase = ascii_toLowerCase\<rparr>"

text \<open>
  A file system in memory: the paths that exist with their contents. An operation
  fails when \<open>fails\<close> says so, a copy also when the source is missing or the target
  exists, a delete also when the path is missing.
\<close>

datatype fs_call = CreateDirectory Uri | Copy Uri Uri | Delete Uri

type_synonym example_files = "(string \<times> string) list"

definition example_fs :: "(fs_call \<Rightarrow> bool) \<Rightarrow> example_files IFileSystemNode" where
  "example_fs fails =
     \<lparr>fs_exists = (\<lambda>st u. map_of st (fsPath u) \<noteq> None),
      fs_readFile = (\<lambda>st u. case map_of st (fsPath u) of
                               None \<Rightarrow> Inl (Error ''FileNotFound'')
                             | Some content \<Rightarrow> Inr content),
      fs_createDirectory = (\<lambda>u st.
        if fails (CreateDirectory u) then (Inl (Error ''NoPermissions''), st)
        else if map_of st (fsPath u) \<noteq> None then (Inr (), st)
        else (Inr (), st @ [(fsPath u, [])])),
      fs_copy = (\<lambda>src dst st.
        if fails (Copy src dst) then (Inl (Error ''NoPermissions''), st)
        else case map_of st (fsPath src) of
               None \<Rightarrow> (Inl (Error ''FileNotFound''), st)
             | Some content \<Rightarrow>
                 if map_of st (fsPath dst) \<noteq> None then (Inl (Error ''FileExists''), st)
                 else (Inr (), st @ [(fsPath dst, content)])),
      fs_delete = (\<lambda>u st.
        if fails (Delete u) then (Inl (Error ''NoPermissions''), st)
        else if map_of st (fsPath u) = None then (Inl (Error ''FileNotFound''), st)
        else (Inr (), filter (\<lambda>e. fst e \<noteq> fsPath u) st))\<rparr>"

text \<open>
  The kernel specs of the examples and a \<open>JSON.parse\<close> that knows their texts.
  \<open>mixed_case_kernel_json\<close> has two launch arguments that are not standard, written
  with capitals, and a standard one written \<open>-M\<close>.
\<close>

definition custom_kernel_json :: IJupyterKernelSpec where
  "custom_kernel_json =
     \<lparr>name = Some ''mykernel'', display_name = ''My Custom Kernel'',
      language = Some ''python'',
      argv = [''python'', ''-m'', ''ipykernel_launcher'', ''-f'', ''{connection_file}'', ''--debug''],
      metadata = None, specFile = None, interpreterPath = None, isRegisteredByVSC = None\<rparr>"

definition default_kernel_json :: IJupyterKernelSpec where
  "default_kernel_json =
     \<lparr>name = Some ''python3'', display_name = ''Python 3.9'',
      language = Some ''python'',
      argv = [''python'', ''-m'', ''ipykernel_launcher'', ''-f'', ''{connection_file}''],
      metadata = None, specFile = None, interpreterPath = None, isRegisteredByVSC = None\<rparr>"

definition mixed_case_kernel_json :: IJupyterKernelSpec where
  "mixed_case_kernel_json =
     \<lparr>name = Some ''mykernel'', display_name = ''My Custom Kernel'',
      language = Some ''python'',
      argv = [''python'', ''-M'', ''ipykernel_launcher'', ''-f'', ''{connection_file}'',
              ''--Debug'', ''--LOG=Info''],
      metadata = None, specFile = None, interpreterPath = None, isRegisteredByVSC = None\<rparr>"

definition example_parse :: "string \<Rightarrow> error + IJupyterKernelSpec" where
  "example_parse text =
     (if text = ''custom'' then Inr custom_kernel_json
      else if text = ''default'' then Inr default_kernel_json
      else if text = ''mixed'' then Inr mixed_case_kernel_json
      else Inl (Error ''SyntaxError''))"

text \<open>An interpreter, two cached kernels and a finder that has loaded nothing.\<close>

definition loaded_default_kernel :: IJupyterKernelSpec where
  "loaded_default_kernel =
     default_kernel_json\<lparr>
       metadata := Some \<lparr>vscode = Some \<lparr>originalSpecFile = Some ''/k/python3/kernel.json'',
                                         originalDisplayName = Some ''Python 3.9''\<rparr>,
                         legacy_originalSpecFile = None, interpreter = None\<rparr>,
       specFile := Some ''/k/python3/kernel.json''\<rparr>"

definition example_interpreter :: PythonEnvironment where
  "example_interpreter = \<lparr>uri = Uri_file ''/usr/bin/python3''\<rparr>"

definition example_kernel :: LocalKernelConnectionMetadata where
  "example_kernel =
     startUsingPythonInterpreter ''id-python3''
       (default_kernel_json\<lparr>interpreterPath := Some ''/usr/bin/python3''\<rparr>) example_interpreter"

definition stale_kernel :: LocalKernelConnectionMetadata where
  "stale_kernel =
     startUsingLocalKernelSpec ''id-stale''
       (default_kernel_json\<lparr>specFile := Some ''/k/python3/kernel.json'',
                             interpreterPath := Some ''/usr/bin/python3''\<rparr>)
       (Some example_interpreter)"

definition example_finder :: "example_files \<Rightarrow> (example_files, unit) LocalKernelSpecFinderBase" where
  "example_finder files =
     \<lparr>oldKernelSpecsFolder_field = None, globalState = Map.empty, cache = None,
      pathToKernelSpec = Map.empty, fileSystem = files\<rparr>"

definition copyFails :: "fs_call \<Rightarrow> bool" where
  "copyFails c = (case c of Copy src dst \<Rightarrow> True | _ \<Rightarrow> False)"

definition noFailure :: "fs_call \<Rightarrow> bool" where
  "noFailure c = False"

text \<open>
  Three kernels for the listing: \<open>kernel_zeta\<close> has the id of \<open>kernel_Beta\<close>.
\<close>

definition kernel_Beta :: LocalKernelConnectionMetadata where
  "kernel_Beta =
     startUsingLocalKernelSpec ''id-b'' (default_kernel_json\<lparr>display_name := ''Beta''\<rparr>) None"

definition kernel_alpha :: LocalKernelConnectionMetadata where
  "kernel_alpha =
     startUsingLocalKernelSpec ''id-a'' (default_kernel_json\<lparr>display_name := ''alpha''\<rparr>) None"

definition kernel_zeta :: LocalKernelConnectionMetadata where
  "kernel_zeta =
     startUsingLocalKernelSpec ''id-b'' (default_kernel_json\<lparr>display_name := ''zeta''\<rparr>) None"

text \<open>A search of the directory \<open>/k\<close> whose \<open>fs.searchLocal\<close> is pending.\<close>

definition example_search :: searchItem where
  "example_search = SearchPath (Uri_file ''/k'')"

definition example_pending :: "event list" where
  "example_pending = [Call example_search 0, ExistsAnswered 0 True]"

section \<open>Substrings\<close>

lemma startsWith_iff: "startsWith s p \<longleftrightarrow> (\<exists>post. s = p @ post)"
  by (induction s p rule: startsWith.induct) auto

lemma str_includes_iff: "str_includes s p \<longleftrightarrow> (\<exists>pre post. s = pre @ p @ post)"
proof (induction s)
  case Nil
  then show ?case by auto
next
  case (Cons c cs)
  show ?case
  proof
    assume "str_includes (c # cs) p"
    then consider "startsWith (c # cs) p" | "str_includes cs p" by auto
    then show "\<exists>pre post. c # cs = pre @ p @ post"
    proof cases
      case 1
      then obtain post where "c # cs = p @ post" by (auto simp: startsWith_iff)
      then have "c # cs = [] @ p @ post" by simp
      then show ?thesis by blast
    next
      case 2
      then obtain pre post where "cs = pre @ p @ post" using Cons.IH by auto
      then have "c # cs = (c # pre) @ p @ post" by simp
      then show ?thesis by blast
    qed
  next
    assume "\<exists>pre post. c # cs = pre @ p @ post"
    then obtain pre post where e: "c # cs = pre @ p @ post" by blast
    show "str_includes (c # cs) p"
    proof (cases pre)
      case Nil
      then have "startsWith (c # cs) p" using e by (auto simp: startsWith_iff)
      then show ?thesis by simp
    next
      case (Cons a pre')
      then have "cs = pre' @ p @ post" using e by simp
      then have "str_includes cs p" using Cons.IH by blast
      then show ?thesis by simp
    qed
  qed
qed

text \<open>
  C8: a spec file whose path contains the reserved folder name
  \<open>__old_vscode_kernelspecs\<close> is never loaded: \<open>loadKernelSpec\<close> and
  \<open>getKernelSpec\<close> return \<open>undefined\<close> whatever the file holds, and
  \<open>getKernelSpec\<close> leaves the finder as it was.
\<close>

theorem quarantine_never_loaded:
  assumes "fsPath specPath = pre @ oldKernelsSpecFolderName @ post"
  shows "loadKernelSpec pf fs st specPath cancelToken interp = None
       \<and> getKernelSpec pf fs specPath cancelToken' interp' globalSpecRootPath this = (None, this)"
proof -
  have "str_includes (fsPath specPath) oldKernelsSpecFolderName"
    using assms str_includes_iff by blast
  then show ?thesis by (simp add: loadKernelSpec_def getKernelSpec_def)
qed

theorem quarantine_never_loaded_witness:
  "fs_readFile (example_fs noFailure) [(''/k/__old_vscode_kernelspecs/py/kernel.json'', ''default'')]
       (Uri_file ''/k/__old_vscode_kernelspecs/py/kernel.json'') = Inr ''default''
   \<and> example_parse ''default'' = Inr default_kernel_json
   \<and> loadKernelSpec (example_platform example_parse) (example_fs noFailure)
       [(''/k/__old_vscode_kernelspecs/py/kernel.json'', ''default'')]
       (Uri_file ''/k/__old_vscode_kernelspecs/py/kernel.json'') (\<lambda>n. False) None = None
   \<and> fst (getKernelSpec (example_platform example_parse) (example_fs noFailure)
       (Uri_file ''/k/__old_vscode_kernelspecs/py/kernel.json'') (\<lambda>n. False) None None
       \<lparr>oldKernelSpecsFolder_field = None, globalState = (Map.empty :: string \<rightharpoonup> unit memento_value), cache = None,
        pathToKernelSpec = Map.empty,
        fileSystem = [(''/k/__old_vscode_kernelspecs/py/kernel.json'', ''default'')]\<rparr>) = None"
proof -
  have p: "fsPath (Uri_file ''/k/__old_vscode_kernelspecs/py/kernel.json'')
             = ''/k/'' @ oldKernelsSpecFolderName @ ''/py/kernel.json''"
    by (simp add: oldKernelsSpecFolderName_def)
  note t = quarantine_never_loaded [OF p]
  have r: "fs_readFile (example_fs noFailure) [(''/k/__old_vscode_kernelspecs/py/kernel.json'', ''default'')]
       (Uri_file ''/k/__old_vscode_kernelspecs/py/kernel.json'') = Inr ''default''"
    by (simp add: example_fs_def)
  have e: "example_parse ''default'' = Inr default_kernel_json"
    by (simp add: example_parse_def)
  show ?thesis by (simp add: r e t)
qed


section \<open>The name of a loaded kernel spec\<close>

lemma loadKernelSpec_name:
  assumes "loadKernelSpec pf fs st specPath cancelToken interp = Some k"
    and "fs_readFile fs st specPath = Inr text"
    and "JSON_parse pf text = Inr parsed"
  shows "name k =
           or_else
             (nameWithArgv pf (parsed\<lparr>name :=
                (case interp of
                   Some i \<Rightarrow> Some (getInterpreterKernelSpecName pf i)
                 | None \<Rightarrow> name parsed)\<rparr>))
             (Some (path_basename pf (path_dirname pf (fsPath specPath))))"
  using assms
  by (auto simp: loadKernelSpec_def Let_def JupyterKernelSpec_def
      split: if_splits option.splits)


lemma lower_example: "toLowerCase (example_platform parse) = ascii_toLowerCase"
  by (simp add: example_platform_def)

lemma parse_example: "JSON_parse (example_platform parse) = parse"
  by (simp add: example_platform_def)

lemma default_matches:
  "match (ascii_toLowerCase ''Python 3.9'') isDefaultPythonKernelSpecSpecName"
  by code_simp


lemma read_example:
  "fs_readFile (example_fs noFailure) [(p, content)] (Uri_file p) = Inr content"
  by (simp add: example_fs_def)

lemma load_default:
  "loadKernelSpec (example_platform example_parse) (example_fs noFailure)
     [(''/k/python3/kernel.json'', ''default'')] (Uri_file ''/k/python3/kernel.json'')
     (\<lambda>n. False) None
   = Some loaded_default_kernel"
  using default_matches
  by (simp add: loadKernelSpec_def example_fs_def example_parse_def example_platform_def
      default_kernel_json_def oldKernelsSpecFolderName_def nameWithArgv_def normalizeMetadata_def
      JupyterKernelSpec_def interpreterPathOf_def or_else_def loaded_default_kernel_def)




text \<open>
  C9: when the display name matches the default pattern \<open>python <version>\<close>, the
  name of the record that \<open>loadKernelSpec\<close> returns has no suffix taken from the
  launch arguments: it is the name given by the interpreter when there is one, else
  the name in the file, and the name of the directory when that is missing or empty.
\<close>

theorem default_name_unchanged:
  assumes "loadKernelSpec pf fs st specPath cancelToken interp = Some k"
    and "fs_readFile fs st specPath = Inr text"
    and "JSON_parse pf text = Inr parsed"
    and "match (toLowerCase pf (display_name parsed)) isDefaultPythonKernelSpecSpecName"
  shows "name k =
           or_else
             (case interp of
                Some i \<Rightarrow> Some (getInterpreterKernelSpecName pf i)
              | None \<Rightarrow> name parsed)
             (Some (path_basename pf (path_dirname pf (fsPath specPath))))"
  using loadKernelSpec_name [OF assms(1,2,3)] assms(4)
  by (simp add: nameWithArgv_def)

theorem default_name_unchanged_witness:
  "display_name default_kernel_json = ''Python 3.9''
   \<and> argv default_kernel_json
       = [''python'', ''-m'', ''ipykernel_launcher'', ''-f'', ''{connection_file}'']
   \<and> name default_kernel_json = Some ''python3''
   \<and> map_option name
        (loadKernelSpec (example_platform example_parse) (example_fs noFailure)
           [(''/k/python3/kernel.json'', ''default'')] (Uri_file ''/k/python3/kernel.json'')
           (\<lambda>n. False) None)
       = Some (Some ''python3'')"
proof -
  have p: "JSON_parse (example_platform example_parse) ''default'' = Inr default_kernel_json"
    by (simp add: example_platform_def example_parse_def)
  have m: "match (toLowerCase (example_platform example_parse) (display_name default_kernel_json))
             isDefaultPythonKernelSpecSpecName"
    using default_matches by (simp add: lower_example default_kernel_json_def)
  have "name loaded_default_kernel
     = or_else (case (None :: PythonEnvironment option) of
                  Some i \<Rightarrow> Some (getInterpreterKernelSpecName (example_platform example_parse) i)
                | None \<Rightarrow> name default_kernel_json)
         (Some (path_basename (example_platform example_parse)
                  (path_dirname (example_platform example_parse)
                     (fsPath (Uri_file ''/k/python3/kernel.json'')))))"
    by (rule default_name_unchanged [OF load_default read_example p m])
  then show ?thesis
    by (simp add: load_default) (simp add: default_kernel_json_def or_else_def)
qed






section \<open>The persisted cache\<close>

text \<open>
  C4: when the \<open>extensionVersion\<close> stored with the cached kernels is not the
  running extension's version, \<open>listKernelsFirstTimeFromMemento\<close> returns the empty
  list, whatever the stored kernels are.
\<close>

theorem version_mismatch_discards_cache:
  assumes "memento cacheKey = Some (KernelsValue ks v)"
    and "v \<noteq> env_extensionVersion"
  shows "listKernelsFirstTimeFromMemento deserializeKernelConnection fs st memento
           env_extensionVersion cacheKey = []"
  using assms by (simp add: listKernelsFirstTimeFromMemento_def split: option.splits)

theorem version_mismatch_discards_cache_witness:
  "isValidCachedKernel (example_fs noFailure) [(''/usr/bin/python3'', ''ELF'')] example_kernel
   \<and> listKernelsFirstTimeFromMemento (\<lambda>k. k) (example_fs noFailure)
       [(''/usr/bin/python3'', ''ELF'')]
       [''local'' \<mapsto> KernelsValue (Some [example_kernel]) ''1.0.0''] ''1.0.0'' ''local''
     = [example_kernel]
   \<and> listKernelsFirstTimeFromMemento (\<lambda>k. k) (example_fs noFailure)
       [(''/usr/bin/python3'', ''ELF'')]
       [''local'' \<mapsto> KernelsValue (Some [example_kernel]) ''1.0.0''] ''1.0.1'' ''local''
     = []"
proof -
  have g: "[''local'' \<mapsto> KernelsValue (Some [example_kernel]) ''1.0.0''] ''local''
             = Some (KernelsValue (Some [example_kernel]) ''1.0.0'')"
    by simp
  have n: "''1.0.0'' \<noteq> ''1.0.1''" by simp
  note t = version_mismatch_discards_cache
    [where memento = "[''local'' \<mapsto> KernelsValue (Some [example_kernel]) ''1.0.0'']"
       and cacheKey = "''local''", OF g n]
  have v: "isValidCachedKernel (example_fs noFailure) [(''/usr/bin/python3'', ''ELF'')] example_kernel"
    by (simp add: example_kernel_def example_fs_def example_interpreter_def)
  have s: "listKernelsFirstTimeFromMemento (\<lambda>k. k) (example_fs noFailure)
       [(''/usr/bin/python3'', ''ELF'')]
       [''local'' \<mapsto> KernelsValue (Some [example_kernel]) ''1.0.0''] ''1.0.0'' ''local''
     = [example_kernel]"
    using v by (simp add: listKernelsFirstTimeFromMemento_def)
  show ?thesis by (simp add: v s t)
qed

text \<open>
  C7 does not hold of \<open>isValidCachedKernel\<close>: \<open>stale_kernel\<close> is a
  \<open>startUsingLocalKernelSpec\<close> record whose spec file and whose interpreter are both
  missing from the file system, and the check accepts it, so
  \<open>listKernelsFirstTimeFromMemento\<close> keeps it. In
  \<open>r && kernel.interpreter ? this.fs.exists(kernel.interpreter.uri) : Promise.resolve(true)\<close>
  the condition is \<open>r && kernel.interpreter\<close>: a missing spec file (\<open>r\<close> false)
  gives \<open>true\<close>.
\<close>

theorem stale_local_spec_kept:
  "\<not> fs_exists (example_fs noFailure) [] (Uri_file ''/usr/bin/python3'')
   \<and> \<not> fs_exists (example_fs noFailure) [] (Uri_file ''/k/python3/kernel.json'')
   \<and> isValidCachedKernel (example_fs noFailure) [] stale_kernel
   \<and> listKernelsFirstTimeFromMemento (\<lambda>k. k) (example_fs noFailure) []
       [''local'' \<mapsto> KernelsValue (Some [stale_kernel]) ''1.0.0''] ''1.0.0'' ''local''
     = [stale_kernel]"
  by (simp add: listKernelsFirstTimeFromMemento_def stale_kernel_def example_fs_def noFailure_def
      example_interpreter_def default_kernel_json_def)

section \<open>Archiving\<close>

text \<open>
  C3, as the code has it: once the directory of the backup is created, a failure of
  \<open>fs.copy\<close> is dropped and \<open>fs.delete\<close> runs on the original spec file whether
  the copy succeeded or not (\<open>copied\<close> is any outcome); the call fails exactly when
  the delete fails.
\<close>

theorem deleteOldKernelSpec_copy_swallowed:
  assumes "fs_createDirectory fs (Uri_file (path_dirname pf (destinationFile pf f)))
             (fileSystem this) = (Inr (), st1)"
    and "fs_copy fs (Uri_file f) (Uri_file (destinationFile pf f)) st1 = (copied, st2)"
  shows "deleteOldKernelSpec pf fs f this =
           (fst (fs_delete fs (Uri_file f) st2),
            (set_oldKernelSpecsFolder (destinationFolder pf f) this)
              \<lparr>fileSystem := snd (fs_delete fs (Uri_file f) st2)\<rparr>)"
proof -
  have fsys: "fileSystem (set_oldKernelSpecsFolder (destinationFolder pf f) this) = fileSystem this"
    by (simp add: set_oldKernelSpecsFolder_def)
  obtain r st3 where d: "fs_delete fs (Uri_file f) st2 = (r, st3)"
    by (cases "fs_delete fs (Uri_file f) st2")
  show ?thesis
    using assms d
    by (cases r) (simp_all add: deleteOldKernelSpec_def Let_def fsys)
qed

lemma createDirectory_example:
  "fs_createDirectory (example_fs copyFails) (Uri_file ''/k/__old_vscode_kernelspecs/python3'')
     [(''/k/python3/kernel.json'', ''default'')]
   = (Inr (), [(''/k/python3/kernel.json'', ''default''), (''/k/__old_vscode_kernelspecs/python3'', [])])"
  by (simp add: example_fs_def copyFails_def)

lemma copy_example:
  "fs_copy (example_fs copyFails) (Uri_file ''/k/python3/kernel.json'')
     (Uri_file ''/k/__old_vscode_kernelspecs/python3/kernel.json'')
     [(''/k/python3/kernel.json'', ''default''), (''/k/__old_vscode_kernelspecs/python3'', [])]
   = (Inl (Error ''NoPermissions''),
      [(''/k/python3/kernel.json'', ''default''), (''/k/__old_vscode_kernelspecs/python3'', [])])"
  by (simp add: example_fs_def copyFails_def)

lemma delete_example:
  "fs_delete (example_fs copyFails) (Uri_file ''/k/python3/kernel.json'')
     [(''/k/python3/kernel.json'', ''default''), (''/k/__old_vscode_kernelspecs/python3'', [])]
   = (Inr (), [(''/k/__old_vscode_kernelspecs/python3'', [])])"
  by (simp add: example_fs_def copyFails_def)

lemma dest_example:
  "destinationFile (example_platform example_parse) ''/k/python3/kernel.json''
     = ''/k/__old_vscode_kernelspecs/python3/kernel.json''"
  "destinationFolder (example_platform example_parse) ''/k/python3/kernel.json''
     = ''/k/__old_vscode_kernelspecs''"
  "path_dirname (example_platform example_parse) ''/k/__old_vscode_kernelspecs/python3/kernel.json''
     = ''/k/__old_vscode_kernelspecs/python3''"
  by (simp_all add: destinationFile_def destinationFolder_def example_platform_def
      example_dirname_def example_basename_def oldKernelsSpecFolderName_def)

theorem deleteOldKernelSpec_copy_swallowed_witness:
  "fst (fs_copy (example_fs copyFails) (Uri_file ''/k/python3/kernel.json'')
          (Uri_file ''/k/__old_vscode_kernelspecs/python3/kernel.json'')
          [(''/k/python3/kernel.json'', ''default''), (''/k/__old_vscode_kernelspecs/python3'', [])])
     = Inl (Error ''NoPermissions'')
   \<and> deleteOldKernelSpec (example_platform example_parse) (example_fs copyFails)
         ''/k/python3/kernel.json'' (example_finder [(''/k/python3/kernel.json'', ''default'')])
       = (Inr (),
          (set_oldKernelSpecsFolder ''/k/__old_vscode_kernelspecs''
             (example_finder [(''/k/python3/kernel.json'', ''default'')]))
            \<lparr>fileSystem := [(''/k/__old_vscode_kernelspecs/python3'', [])]\<rparr>)"
proof -
  have c: "fs_createDirectory (example_fs copyFails)
             (Uri_file (path_dirname (example_platform example_parse)
                (destinationFile (example_platform example_parse) ''/k/python3/kernel.json'')))
             (fileSystem (example_finder [(''/k/python3/kernel.json'', ''default'')]))
           = (Inr (), [(''/k/python3/kernel.json'', ''default''),
                       (''/k/__old_vscode_kernelspecs/python3'', [])])"
    by (simp add: dest_example createDirectory_example example_finder_def)
  have d: "fs_copy (example_fs copyFails) (Uri_file ''/k/python3/kernel.json'')
             (Uri_file (destinationFile (example_platform example_parse) ''/k/python3/kernel.json''))
             [(''/k/python3/kernel.json'', ''default''), (''/k/__old_vscode_kernelspecs/python3'', [])]
           = (Inl (Error ''NoPermissions''),
              [(''/k/python3/kernel.json'', ''default''), (''/k/__old_vscode_kernelspecs/python3'', [])])"
    by (simp add: dest_example copy_example)
  note t = deleteOldKernelSpec_copy_swallowed [OF c d]
  show ?thesis
    by (simp add: t copy_example delete_example dest_example)
qed

text \<open>
  With a copy that fails, the original spec file is deleted and no backup of it
  exists: the file system is left with the backup directory alone.
\<close>

theorem deleted_without_backup:
  "fst (deleteOldKernelSpec (example_platform example_parse) (example_fs copyFails)
          ''/k/python3/kernel.json'' (example_finder [(''/k/python3/kernel.json'', ''default'')]))
     = Inr ()
   \<and> fileSystem (snd (deleteOldKernelSpec (example_platform example_parse) (example_fs copyFails)
          ''/k/python3/kernel.json'' (example_finder [(''/k/python3/kernel.json'', ''default'')])))
     = [(''/k/__old_vscode_kernelspecs/python3'', [])]"
  by (simp add: deleteOldKernelSpec_def dest_example set_oldKernelSpecsFolder_def
      example_finder_def example_fs_def copyFails_def)

section \<open>The cache of loaded kernel specs\<close>

text \<open>
  C10: \<open>pathToKernelSpec\<close> is keyed by the path of the spec file alone. When a call
  of \<open>getKernelSpec\<close> for a path that is not in the cache returns a kernel spec, that
  spec is the one loaded with the interpreter of this call; a later call for the
  same path returns it again whatever interpreter and token it is given, and for any
  \<open>globalSpecRootPath\<close> the later call does what it would do with the first call's
  interpreter and token.
\<close>

theorem getKernelSpec_keyed_by_path:
  assumes "pathToKernelSpec this (getComparisonKey pf specPath) = None"
    and "getKernelSpec pf fs specPath token1 interp1 root1 this = (Some k, this1)"
  shows "loadKernelSpec pf fs (fileSystem this) specPath token1 interp1 = Some k
       \<and> getKernelSpec pf fs specPath token2 interp2 None this1 = (Some k, this1)
       \<and> getKernelSpec pf fs specPath token2 interp2 root2 this1
           = getKernelSpec pf fs specPath token1 interp1 root2 this1"
proof -
  have notold: "\<not> str_includes (fsPath specPath) oldKernelsSpecFolderName"
    using assms(2) by (auto simp: getKernelSpec_def)
  have l: "loadKernelSpec pf fs (fileSystem this) specPath token1 interp1 = Some k"
    and t1: "this1 = this\<lparr>pathToKernelSpec := (pathToKernelSpec this)(getComparisonKey pf specPath \<mapsto>
                 loadKernelSpec pf fs (fileSystem this) specPath token1 interp1)\<rparr>"
    using assms notold
    by (auto simp: getKernelSpec_def Let_def split: if_splits option.splits)
  have c: "pathToKernelSpec this1 (getComparisonKey pf specPath) = Some (Some k)"
    using t1 l by simp
  have a: "getKernelSpec pf fs specPath token2 interp2 None this1 = (Some k, this1)"
    using notold c by (simp add: getKernelSpec_def Let_def shouldDeleteKernelSpec_def)
  have b: "getKernelSpec pf fs specPath token2 interp2 root2 this1
           = getKernelSpec pf fs specPath token1 interp1 root2 this1"
    using notold c by (simp add: getKernelSpec_def Let_def split: option.splits)
  show ?thesis using l a b by simp
qed

lemma key_example: "getComparisonKey (example_platform parse) u = fsPath u"
  by (simp add: example_platform_def)

lemma no_delete_without_root: "\<not> shouldDeleteKernelSpec pf k None"
  by (simp add: shouldDeleteKernelSpec_def)

theorem getKernelSpec_keyed_by_path_witness:
  "fst (getKernelSpec (example_platform example_parse) (example_fs noFailure)
          (Uri_file ''/k/python3/kernel.json'') (\<lambda>n. False) None None
          (example_finder [(''/k/python3/kernel.json'', ''default'')]))
     = Some loaded_default_kernel
   \<and> fst (getKernelSpec (example_platform example_parse) (example_fs noFailure)
          (Uri_file ''/k/python3/kernel.json'') (\<lambda>n. True) (Some example_interpreter) None
          (snd (getKernelSpec (example_platform example_parse) (example_fs noFailure)
                  (Uri_file ''/k/python3/kernel.json'') (\<lambda>n. False) None None
                  (example_finder [(''/k/python3/kernel.json'', ''default'')]))))
     = Some loaded_default_kernel"
proof -
  have f: "fst (getKernelSpec (example_platform example_parse) (example_fs noFailure)
          (Uri_file ''/k/python3/kernel.json'') (\<lambda>n. False) None None
          (example_finder [(''/k/python3/kernel.json'', ''default'')]))
     = Some loaded_default_kernel"
  proof -
    have n: "\<not> str_includes (fsPath (Uri_file ''/k/python3/kernel.json'')) oldKernelsSpecFolderName"
      by (simp add: oldKernelsSpecFolderName_def)
    have c: "pathToKernelSpec (example_finder [(''/k/python3/kernel.json'', ''default'')])
               ''/k/python3/kernel.json'' = None"
      by (simp add: example_finder_def)
    have fsy: "fileSystem (example_finder [(''/k/python3/kernel.json'', ''default'')])
                 = [(''/k/python3/kernel.json'', ''default'')]"
      by (simp add: example_finder_def)
    show ?thesis
      using n
      by (simp add: getKernelSpec_def key_example Let_def c fsy load_default
          no_delete_without_root)
  qed
  have h1: "pathToKernelSpec (example_finder [(''/k/python3/kernel.json'', ''default'')])
              (getComparisonKey (example_platform example_parse) (Uri_file ''/k/python3/kernel.json''))
            = None"
    by (simp add: example_finder_def)
  have h2: "getKernelSpec (example_platform example_parse) (example_fs noFailure)
          (Uri_file ''/k/python3/kernel.json'') (\<lambda>n. False) None None
          (example_finder [(''/k/python3/kernel.json'', ''default'')])
     = (Some loaded_default_kernel,
        snd (getKernelSpec (example_platform example_parse) (example_fs noFailure)
          (Uri_file ''/k/python3/kernel.json'') (\<lambda>n. False) None None
          (example_finder [(''/k/python3/kernel.json'', ''default'')])))"
    using f by (simp add: prod_eq_iff)
  note t = getKernelSpec_keyed_by_path [OF h1 h2, THEN conjunct2, THEN conjunct1]
  show ?thesis
    by (simp add: f t)
qed

section \<open>Listing kernels without duplicates, in order\<close>

lemma set_insertSorted: "set (insertSorted cmp x ys) = insert x (set ys)"
  by (induction ys) auto

lemma length_insertSorted: "length (insertSorted cmp x ys) = Suc (length ys)"
  by (induction ys) auto

lemma distinct_map_insertSorted:
  "distinct (map f (insertSorted cmp x ys)) = distinct (map f (x # ys))"
  by (induction ys) (auto simp: set_insertSorted)

lemma sortBy_Nil: "sortBy cmp [] = []"
  by (simp add: sortBy_def)

lemma sortBy_Cons: "sortBy cmp (x # xs) = insertSorted cmp x (sortBy cmp xs)"
  by (simp add: sortBy_def)

lemma set_sortBy: "set (sortBy cmp xs) = set xs"
  by (induction xs) (auto simp: sortBy_Nil sortBy_Cons set_insertSorted)

lemma length_sortBy: "length (sortBy cmp xs) = length xs"
  by (induction xs) (auto simp: sortBy_Nil sortBy_Cons length_insertSorted)

lemma distinct_map_sortBy: "distinct (map f (sortBy cmp xs)) = distinct (map f xs)"
  by (induction xs)
     (auto simp: sortBy_Nil sortBy_Cons distinct_map_insertSorted set_sortBy)

lemma compareDisplayName_le:
  "compareDisplayName toUpperCase a b \<le> 0
     \<longleftrightarrow> toUpperCase (display_name (kernelSpec a)) \<le> toUpperCase (display_name (kernelSpec b))"
  by (auto simp: compareDisplayName_def Let_def)

lemma compareDisplayName_eq:
  "compareDisplayName toUpperCase a b = 0
     \<longleftrightarrow> toUpperCase (display_name (kernelSpec a)) = toUpperCase (display_name (kernelSpec b))"
  by (auto simp: compareDisplayName_def Let_def)

lemma sorted_insertSorted:
  "sorted (map (\<lambda>k. toUpperCase (display_name (kernelSpec k))) ys)
   \<Longrightarrow> sorted (map (\<lambda>k. toUpperCase (display_name (kernelSpec k)))
                 (insertSorted (compareDisplayName toUpperCase) x ys))"
  by (induction ys) (auto simp: set_insertSorted compareDisplayName_le)

lemma sorted_sortBy:
  "sorted (map (\<lambda>k. toUpperCase (display_name (kernelSpec k))) (sortBy (compareDisplayName toUpperCase) xs))"
  by (induction xs) (auto simp: sortBy_Nil sortBy_Cons sorted_insertSorted)

lemma distinct_distinctKernelMetadata:
  "distinct (map fst m) \<Longrightarrow> distinct (map fst (distinctKernelMetadata items m))"
  by (induction items arbitrary: m) (auto simp: map_of_eq_None_iff)

lemma ids_distinctKernelMetadata:
  "fst ` set (distinctKernelMetadata items m) = fst ` set m \<union> id' ` set items"
  by (induction items arbitrary: m) (auto simp: map_of_eq_None_iff image_Un)

lemma length_distinctKernelMetadata:
  "length (distinctKernelMetadata items m) \<le> length m + length items"
proof (induction items arbitrary: m)
  case Nil
  then show ?case by simp
next
  case (Cons k ks)
  show ?case
  proof (cases "map_of m (id' k) = None")
    case True
    then show ?thesis using Cons.IH [of "m @ [(id' k, k)]"] by simp
  next
    case False
    then show ?thesis using Cons.IH [of m] by auto
  qed
qed

lemma first_distinctKernelMetadata:
  "(i, k) \<in> set (distinctKernelMetadata items m)
   \<Longrightarrow> (i, k) \<in> set m \<or> (i \<notin> fst ` set m \<and> find (\<lambda>x. id' x = i) items = Some k \<and> id' k = i)"
proof (induction items arbitrary: m)
  case Nil
  then show ?case by simp
next
  case (Cons x xs)
  show ?case
  proof (cases "map_of m (id' x) = None")
    case True
    then have notin: "id' x \<notin> fst ` set m" by (simp add: map_of_eq_None_iff)
    from Cons.prems True
    have "(i, k) \<in> set (distinctKernelMetadata xs (m @ [(id' x, x)]))" by simp
    from Cons.IH [OF this]
    consider "(i, k) \<in> set m" | "(i, k) = (id' x, x)"
      | "i \<notin> fst ` set (m @ [(id' x, x)])" "find (\<lambda>y. id' y = i) xs = Some k" "id' k = i"
      by auto
    then show ?thesis
    proof cases
      case 1
      then show ?thesis by simp
    next
      case 2
      then show ?thesis using notin by simp
    next
      case 3
      then have "i \<noteq> id' x" "i \<notin> fst ` set m" by auto
      then show ?thesis using 3 by simp
    qed
  next
    case False
    then have isin: "id' x \<in> fst ` set m" by (simp add: map_of_eq_None_iff)
    from Cons.prems False
    have "(i, k) \<in> set (distinctKernelMetadata xs m)" by simp
    from Cons.IH [OF this]
    consider "(i, k) \<in> set m"
      | "i \<notin> fst ` set m" "find (\<lambda>y. id' y = i) xs = Some k" "id' k = i"
      by auto
    then show ?thesis
    proof cases
      case 1
      then show ?thesis by simp
    next
      case 2
      have "i \<noteq> id' x" using isin 2(1) by blast
      then show ?thesis using 2 by simp
    qed
  qed
qed

lemma distinctSorted_props:
  "distinct (map id' (distinctSorted toUpperCase items))"
  "id' ` set (distinctSorted toUpperCase items) = id' ` set items"
  "r \<in> set (distinctSorted toUpperCase items) \<Longrightarrow> find (\<lambda>x. id' x = id' r) items = Some r"
  "sorted (map (\<lambda>k. toUpperCase (display_name (kernelSpec k))) (distinctSorted toUpperCase items))"
  "length (distinctSorted toUpperCase items) \<le> length items"
proof -
  let ?m = "distinctKernelMetadata items []"
  have key: "\<And>i k. (i, k) \<in> set ?m \<Longrightarrow> find (\<lambda>x. id' x = i) items = Some k \<and> id' k = i"
    using first_distinctKernelMetadata [of _ _ items "[]"] by auto
  have same: "map id' (map snd ?m) = map fst ?m"
    using key by (auto simp: map_eq_conv)
  have d: "distinct (map fst ?m)"
    using distinct_distinctKernelMetadata [of "[]" items] by simp
  show "distinct (map id' (distinctSorted toUpperCase items))"
    using d same by (simp add: distinctSorted_def distinct_map_sortBy del: map_map)
  have "id' ` set (map snd ?m) = set (map id' (map snd ?m))" by (simp add: image_image)
  also have "\<dots> = fst ` set ?m" using same by (simp del: map_map)
  also have "\<dots> = id' ` set items" using ids_distinctKernelMetadata [of items "[]"] by simp
  finally show "id' ` set (distinctSorted toUpperCase items) = id' ` set items"
    by (simp add: distinctSorted_def set_sortBy)
  show "find (\<lambda>x. id' x = id' r) items = Some r" if "r \<in> set (distinctSorted toUpperCase items)"
  proof -
    from that obtain i where "(i, r) \<in> set ?m"
      by (auto simp: distinctSorted_def set_sortBy)
    then show ?thesis using key by auto
  qed
  show "sorted (map (\<lambda>k. toUpperCase (display_name (kernelSpec k))) (distinctSorted toUpperCase items))"
    by (simp add: distinctSorted_def sorted_sortBy)
  show "length (distinctSorted toUpperCase items) \<le> length items"
    using length_distinctKernelMetadata [of items "[]"]
    by (simp add: distinctSorted_def length_sortBy)
qed


text \<open>
  C5: when \<open>listKernelsWithCache\<close> runs the finder (nothing is stored for the key,
  or \<open>ignoreCache\<close> is set, or the stored entry depends on the Python extension
  and its installation state has changed) and the finder gives \<open>items\<close>, the
  result is \<open>distinctSorted toUpperCase items\<close>, which is also what is stored. No two of its
  records share an id, its ids are those of \<open>items\<close>, each of its records is the
  first of \<open>items\<close> with its id, it is sorted by the upper-cased display name,
  the comparison gives 0 exactly for equal upper-cased display names, and it is no
  longer than \<open>items\<close>.
\<close>

theorem listKernelsWithCache_distinct_sorted:
  assumes "case kernelSpecCache cacheKey of
             None \<Rightarrow> True
           | Some r \<Rightarrow> ignoreCache \<or> (usesPython r \<and> wasPythonExtInstalled r \<noteq> installed)"
  shows "listKernelsWithCache toUpperCase installed kernelSpecCache cacheKey dependsOnPythonExtension
           (Inr items) ignoreCache
         = (Inr (distinctSorted toUpperCase items),
            kernelSpecCache(cacheKey \<mapsto>
              \<lparr>usesPython = dependsOnPythonExtension, wasPythonExtInstalled = installed,
               promise = Inr (distinctSorted toUpperCase items)\<rparr>))
       \<and> distinct (map id' (distinctSorted toUpperCase items))
       \<and> id' ` set (distinctSorted toUpperCase items) = id' ` set items
       \<and> (\<forall>r \<in> set (distinctSorted toUpperCase items). find (\<lambda>x. id' x = id' r) items = Some r)
       \<and> sorted (map (\<lambda>k. toUpperCase (display_name (kernelSpec k))) (distinctSorted toUpperCase items))
       \<and> (compareDisplayName toUpperCase a b = 0
            \<longleftrightarrow> toUpperCase (display_name (kernelSpec a)) = toUpperCase (display_name (kernelSpec b)))
       \<and> length (distinctSorted toUpperCase items) \<le> length items"
proof -
  have call: "listKernelsWithCache toUpperCase installed kernelSpecCache cacheKey dependsOnPythonExtension
           (Inr items) ignoreCache
         = (Inr (distinctSorted toUpperCase items),
            kernelSpecCache(cacheKey \<mapsto>
              \<lparr>usesPython = dependsOnPythonExtension, wasPythonExtInstalled = installed,
               promise = Inr (distinctSorted toUpperCase items)\<rparr>))"
    using assms
    by (auto simp: listKernelsWithCache_def searchAndStore_def Let_def split: option.splits)
  show ?thesis
    using call
      distinctSorted_props(1,2,4,5) [where items = items and toUpperCase = toUpperCase]
      distinctSorted_props(3) [where items = items and toUpperCase = toUpperCase]
      compareDisplayName_eq [of toUpperCase a b]
    by blast
qed

lemma distinctSorted_example:
  "distinctSorted ascii_toUpperCase [kernel_Beta, kernel_alpha, kernel_zeta]
     = [kernel_alpha, kernel_Beta]"
  by code_simp

theorem listKernelsWithCache_distinct_sorted_witness:
  "fst (listKernelsWithCache ascii_toUpperCase True Map.empty ''local'' True
          (Inr [kernel_Beta, kernel_alpha, kernel_zeta]) False)
     = Inr [kernel_alpha, kernel_Beta]
   \<and> id' kernel_zeta = id' kernel_Beta"
proof -
  have h: "case (Map.empty :: string \<rightharpoonup> kernelSpecCacheEntry) ''local'' of
             None \<Rightarrow> True
           | Some r \<Rightarrow> False \<or> (usesPython r \<and> wasPythonExtInstalled r \<noteq> True)"
    by simp
  note t = listKernelsWithCache_distinct_sorted
    [where kernelSpecCache = Map.empty and cacheKey = "''local''" and ignoreCache = False
       and installed = True and toUpperCase = ascii_toUpperCase, OF h, THEN conjunct1]
  show ?thesis
    by (simp add: t distinctSorted_example) (simp add: kernel_zeta_def kernel_Beta_def)
qed


section \<open>The path search: runs and invariants\<close>

lemma run_Nil: "run pf s [] = s"
  by (simp add: run_def)

lemma run_Cons: "run pf s (e # es) = run pf (step pf s e) es"
  by (simp add: run_def)


lemma run_snoc: "run pf s (es @ [e]) = step pf (run pf s es) e"
  by (simp add: run_def)

text \<open>The fields after a promise settles.\<close>

lemma searches_settle:
  "searches (settle pf p res s) = (searches s)[p := (searches s ! p)\<lparr>search_stage := Settled res\<rparr>]"
  by (cases res) (simp_all add: settle_def Let_def)

lemma listeners_settle:
  "listeners (settle pf p res s) = filter (\<lambda>(tok, k, q). q \<noteq> p) (listeners s)"
  by (cases res) (simp_all add: settle_def Let_def)

lemma calls_settle: "searchLocalCalls (settle pf p res s) = searchLocalCalls s"
  by (cases res) (simp_all add: settle_def Let_def)

lemma cancelled_settle: "cancelled (settle pf p res s) = cancelled s"
  by (cases res) (simp_all add: settle_def Let_def)

lemma cache_settle:
  "findKernelSpecsInPathCache (settle pf p res s) =
     (case res of
        Inl ex \<Rightarrow> evict (cacheKeyOf pf (search_item (searches s ! p))) p (findKernelSpecsInPathCache s)
      | Inr files \<Rightarrow> findKernelSpecsInPathCache s)"
  by (cases res) (simp_all add: settle_def Let_def)


lemma evict_cases: "evict k' q m k = m k \<or> (k = k' \<and> m k = Some q \<and> evict k' q m k = None)"
  by (auto simp: evict_def)


text \<open>The item and the token of a search never change, and searches are only added.\<close>

lemma length_searches_step: "length (searches s) \<le> length (searches (step pf s e))"
  by (cases e)
     (auto simp: findKernelSpecsInPath_def existsAnswered_def searchLocalAnswered_def
        cancellationRequested_def searches_settle Let_def split: option.splits sum.splits)

lemma search_item_step:
  "p < length (searches s) \<Longrightarrow>
   search_item (searches (step pf s e) ! p) = search_item (searches s ! p)
   \<and> search_token (searches (step pf s e) ! p) = search_token (searches s ! p)"
  by (cases e)
     (auto simp: findKernelSpecsInPath_def existsAnswered_def searchLocalAnswered_def
        cancellationRequested_def searches_settle Let_def nth_append nth_list_update
        split: option.splits sum.splits)


lemma fold_evict_sub:
  "fold (\<lambda>(t, k', q) m. if t = tok then evict k' q m else m) ls m k = Some p \<Longrightarrow> m k = Some p"
proof (induction ls arbitrary: m)
  case Nil
  then show ?case by simp
next
  case (Cons l ls)
  obtain t k' q where l: "l = (t, k', q)" by (cases l)
  have "(if t = tok then evict k' q m else m) k = Some p"
    using Cons.IH Cons.prems l by simp
  then show ?case by (auto simp: evict_def split: if_splits)
qed

lemma listenersOk_step: "listenersOk s \<Longrightarrow> listenersOk (step pf s e)"
proof (cases e)
  case (Call item tok)
  assume "listenersOk s"
  then show ?thesis using Call
    by (auto simp: listenersOk_def findKernelSpecsInPath_def Let_def split: option.splits)
next
  case (ExistsAnswered p b)
  assume "listenersOk s"
  then show ?thesis using ExistsAnswered
    by (auto simp: listenersOk_def existsAnswered_def Let_def searches_settle listeners_settle)
next
  case (SearchLocalAnswered p answer)
  assume "listenersOk s"
  then show ?thesis using SearchLocalAnswered
    by (auto simp: listenersOk_def searchLocalAnswered_def Let_def searches_settle
        listeners_settle split: sum.splits)
next
  case (CancellationRequested tok)
  assume "listenersOk s"
  then show ?thesis using CancellationRequested
    by (auto simp: listenersOk_def cancellationRequested_def)
qed

lemma cache_existsAnswered:
  "findKernelSpecsInPathCache (existsAnswered pf p b s) = findKernelSpecsInPathCache s"
  by (simp add: existsAnswered_def Let_def cache_settle)

lemma cache_searchLocalAnswered_sub:
  "findKernelSpecsInPathCache (searchLocalAnswered pf p answer s) k = Some q
   \<Longrightarrow> findKernelSpecsInPathCache s k = Some q"
  by (cases answer)
     (simp_all add: searchLocalAnswered_def Let_def cache_settle evict_def split: if_splits)

lemma cache_cancellationRequested_sub:
  "findKernelSpecsInPathCache (cancellationRequested tok s) k = Some q
   \<Longrightarrow> findKernelSpecsInPathCache s k = Some q"
proof -
  assume "findKernelSpecsInPathCache (cancellationRequested tok s) k = Some q"
  then have "fold (\<lambda>(t, k', q) m. if t = tok then evict k' q m else m) (listeners s)
               (findKernelSpecsInPathCache s) k = Some q"
    by (simp add: cancellationRequested_def)
  then show ?thesis by (rule fold_evict_sub)
qed

lemma cache_step_sub:
  assumes "findKernelSpecsInPathCache (step pf s e) k = Some q"
    and "\<And>item tok. e \<noteq> Call item tok"
  shows "findKernelSpecsInPathCache s k = Some q"
proof (cases e)
  case (Call item tok)
  then show ?thesis using assms(2) by simp
next
  case (ExistsAnswered p b)
  then show ?thesis using assms(1) by (simp add: cache_existsAnswered)
next
  case (SearchLocalAnswered p answer)
  then have "findKernelSpecsInPathCache (searchLocalAnswered pf p answer s) k = Some q"
    using assms(1) by simp
  then show ?thesis by (rule cache_searchLocalAnswered_sub)
next
  case (CancellationRequested tok)
  then have "findKernelSpecsInPathCache (cancellationRequested tok s) k = Some q"
    using assms(1) by simp
  then show ?thesis by (rule cache_cancellationRequested_sub)
qed

lemma cacheOk_sub:
  assumes "cacheOk pf s"
    and "\<And>k q. findKernelSpecsInPathCache (step pf s e) k = Some q
           \<Longrightarrow> findKernelSpecsInPathCache s k = Some q"
  shows "cacheOk pf (step pf s e)"
  unfolding cacheOk_def
proof (intro allI impI)
  fix k q
  assume "findKernelSpecsInPathCache (step pf s e) k = Some q"
  then have "findKernelSpecsInPathCache s k = Some q" by (rule assms(2))
  then have l: "q < length (searches s)" and i: "cacheKeyOf pf (search_item (searches s ! q)) = k"
    using assms(1) by (auto simp: cacheOk_def)
  have "q < length (searches (step pf s e))"
    using l length_searches_step [of s pf e] by simp
  moreover have "search_item (searches (step pf s e) ! q) = search_item (searches s ! q)"
    using search_item_step [OF l] by simp
  ultimately show "q < length (searches (step pf s e))
                   \<and> cacheKeyOf pf (search_item (searches (step pf s e) ! q)) = k"
    using i by simp
qed

lemma cacheOk_step: "cacheOk pf s \<Longrightarrow> cacheOk pf (step pf s e)"
proof (cases e)
  case (Call item tok)
  assume a: "cacheOk pf s"
  show ?thesis
  proof (cases "findKernelSpecsInPathCache s (cacheKeyOf pf item)")
    case (Some q)
    then show ?thesis using a Call by (simp add: findKernelSpecsInPath_def)
  next
    case None
    have st: "step pf s e =
        s\<lparr>searches := searches s @
             [\<lparr>search_item = item, search_token = tok, search_stage = AwaitingExists\<rparr>],
           findKernelSpecsInPathCache :=
             (findKernelSpecsInPathCache s)(cacheKeyOf pf item \<mapsto> length (searches s)),
           listeners := listeners s @ [(tok, cacheKeyOf pf item, length (searches s))]\<rparr>"
      using None Call by (simp add: findKernelSpecsInPath_def Let_def)
    have h: "q < Suc (length (searches s))
          \<and> cacheKeyOf pf (search_item ((searches s @
                 [\<lparr>search_item = item, search_token = tok, search_stage = AwaitingExists\<rparr>]) ! q)) = k"
      if "((findKernelSpecsInPathCache s)(cacheKeyOf pf item \<mapsto> length (searches s))) k = Some q"
      for k q
    proof (cases "k = cacheKeyOf pf item")
      case True
      then show ?thesis using that by auto
    next
      case False
      then have "findKernelSpecsInPathCache s k = Some q" using that by simp
      then have "q < length (searches s)" "cacheKeyOf pf (search_item (searches s ! q)) = k"
        using a by (auto simp: cacheOk_def)
      then show ?thesis by (simp add: nth_append)
    qed
    show ?thesis unfolding cacheOk_def
    proof (intro allI impI)
      fix k q
      assume "findKernelSpecsInPathCache (step pf s e) k = Some q"
      then have "((findKernelSpecsInPathCache s)(cacheKeyOf pf item \<mapsto> length (searches s))) k
                   = Some q"
        by (simp add: st)
      from h [OF this]
      show "q < length (searches (step pf s e))
            \<and> cacheKeyOf pf (search_item (searches (step pf s e) ! q)) = k"
        by (simp add: st)
    qed
  qed
next
  case (ExistsAnswered p b)
  assume a: "cacheOk pf s"
  show ?thesis
    by (rule cacheOk_sub [OF a], erule cache_step_sub) (simp add: ExistsAnswered)
next
  case (SearchLocalAnswered p answer)
  assume a: "cacheOk pf s"
  show ?thesis
    by (rule cacheOk_sub [OF a], erule cache_step_sub) (simp add: SearchLocalAnswered)
next
  case (CancellationRequested tok)
  assume a: "cacheOk pf s"
  show ?thesis
    by (rule cacheOk_sub [OF a], erule cache_step_sub) (simp add: CancellationRequested)
qed

lemma callsOf_settle: "searchLocalCallsOf q (settle pf p res s) = searchLocalCallsOf q s"
  by (simp add: searchLocalCallsOf_def calls_settle)

lemma stage_settle:
  "p < length (searches s) \<Longrightarrow>
   search_stage (searches (settle pf p res s) ! q)
     = (if q = p then Settled res else search_stage (searches s ! q))"
  by (simp add: searches_settle nth_list_update)

lemma length_settle: "length (searches (settle pf p res s)) = length (searches s)"
  by (simp add: searches_settle)

lemma callsOk_settle:
  assumes "callsOk s" and "p < length (searches s)"
  shows "callsOk (settle pf p res s)"
  unfolding callsOk_def
proof (intro allI)
  fix q
  have a: "length (searchLocalCallsOf q s) \<le> 1"
    and b: "length (searches s) \<le> q \<longrightarrow> searchLocalCallsOf q s = []"
    and c: "q < length (searches s) \<longrightarrow> search_stage (searches s ! q) = AwaitingExists
             \<longrightarrow> searchLocalCallsOf q s = []"
    and d: "q < length (searches s) \<longrightarrow> search_stage (searches s ! q) = AwaitingSearchLocal
             \<longrightarrow> length (searchLocalCallsOf q s) = 1"
    using assms(1) by (simp_all add: callsOk_def)
  show "length (searchLocalCallsOf q (settle pf p res s)) \<le> 1
        \<and> (length (searches (settle pf p res s)) \<le> q
             \<longrightarrow> searchLocalCallsOf q (settle pf p res s) = [])
        \<and> (q < length (searches (settle pf p res s))
             \<longrightarrow> search_stage (searches (settle pf p res s) ! q) = AwaitingExists
             \<longrightarrow> searchLocalCallsOf q (settle pf p res s) = [])
        \<and> (q < length (searches (settle pf p res s))
             \<longrightarrow> search_stage (searches (settle pf p res s) ! q) = AwaitingSearchLocal
             \<longrightarrow> length (searchLocalCallsOf q (settle pf p res s)) = 1)"
    using a b c d assms(2)
    by (simp add: callsOf_settle length_settle stage_settle)
qed

lemma callsOk_Call: "callsOk s \<Longrightarrow> callsOk (snd (findKernelSpecsInPath pf item tok s))"
proof (cases "findKernelSpecsInPathCache s (cacheKeyOf pf item)")
  case (Some q)
  assume "callsOk s"
  then show ?thesis using Some by (simp add: findKernelSpecsInPath_def)
next
  case None
  assume a: "callsOk s"
  have st: "snd (findKernelSpecsInPath pf item tok s) =
        s\<lparr>searches := searches s @
             [\<lparr>search_item = item, search_token = tok, search_stage = AwaitingExists\<rparr>],
           findKernelSpecsInPathCache :=
             (findKernelSpecsInPathCache s)(cacheKeyOf pf item \<mapsto> length (searches s)),
           listeners := listeners s @ [(tok, cacheKeyOf pf item, length (searches s))]\<rparr>"
    using None by (simp add: findKernelSpecsInPath_def Let_def)
  show ?thesis unfolding st callsOk_def
  proof (intro allI)
    fix q
    have a1: "length (searchLocalCallsOf q s) \<le> 1"
      and b: "length (searches s) \<le> q \<longrightarrow> searchLocalCallsOf q s = []"
      and c: "q < length (searches s) \<longrightarrow> search_stage (searches s ! q) = AwaitingExists
               \<longrightarrow> searchLocalCallsOf q s = []"
      and d: "q < length (searches s) \<longrightarrow> search_stage (searches s ! q) = AwaitingSearchLocal
               \<longrightarrow> length (searchLocalCallsOf q s) = 1"
      using a by (simp_all add: callsOk_def)
    let ?s' = "s\<lparr>searches := searches s @
             [\<lparr>search_item = item, search_token = tok, search_stage = AwaitingExists\<rparr>],
           findKernelSpecsInPathCache :=
             (findKernelSpecsInPathCache s)(cacheKeyOf pf item \<mapsto> length (searches s)),
           listeners := listeners s @ [(tok, cacheKeyOf pf item, length (searches s))]\<rparr>"
    have e: "searchLocalCallsOf q ?s' = searchLocalCallsOf q s"
      by (simp add: searchLocalCallsOf_def)
    show "length (searchLocalCallsOf q ?s') \<le> 1
        \<and> (length (searches ?s') \<le> q \<longrightarrow> searchLocalCallsOf q ?s' = [])
        \<and> (q < length (searches ?s') \<longrightarrow> search_stage (searches ?s' ! q) = AwaitingExists
             \<longrightarrow> searchLocalCallsOf q ?s' = [])
        \<and> (q < length (searches ?s') \<longrightarrow> search_stage (searches ?s' ! q) = AwaitingSearchLocal
             \<longrightarrow> length (searchLocalCallsOf q ?s') = 1)"
      unfolding e using a1 b c d
      by (cases "q < length (searches s)") (auto simp: nth_append)
  qed
qed

lemma callsOk_existsAnswered: "callsOk s \<Longrightarrow> callsOk (existsAnswered pf p b s)"
proof -
  assume a: "callsOk s"
  show ?thesis
  proof (cases "p < length (searches s) \<and> search_stage (searches s ! p) = AwaitingExists")
    case False
    then show ?thesis using a by (auto simp: existsAnswered_def)
  next
    case True
    show ?thesis
    proof (cases "b \<and> search_token (searches s ! p) \<notin> cancelled s")
      case False
      then have "existsAnswered pf p b s = settle pf p (Inr []) s"
        using True by (auto simp: existsAnswered_def Let_def)
      then show ?thesis using callsOk_settle [OF a] True by simp
    next
      case adv: True
      let ?t = "searches s ! p"
      let ?s' = "s\<lparr>searches := (searches s)[p := ?t\<lparr>search_stage := AwaitingSearchLocal\<rparr>],
                     searchLocalCalls := searchLocalCalls s @
                       [(p, fsPath (searchPathOf (search_item ?t)))]\<rparr>"
      have st: "existsAnswered pf p b s = ?s'"
        using True adv by (simp add: existsAnswered_def Let_def)
      have p0: "searchLocalCallsOf p s = []"
        using a True by (simp add: callsOk_def)
      show ?thesis unfolding st callsOk_def
      proof (intro allI)
        fix q
        have a1: "length (searchLocalCallsOf q s) \<le> 1"
          and b: "length (searches s) \<le> q \<longrightarrow> searchLocalCallsOf q s = []"
          and c: "q < length (searches s) \<longrightarrow> search_stage (searches s ! q) = AwaitingExists
                   \<longrightarrow> searchLocalCallsOf q s = []"
          and d: "q < length (searches s) \<longrightarrow> search_stage (searches s ! q) = AwaitingSearchLocal
                   \<longrightarrow> length (searchLocalCallsOf q s) = 1"
          using a by (simp_all add: callsOk_def)
        have e: "searchLocalCallsOf q ?s' =
                   (if q = p then [(p, fsPath (searchPathOf (search_item ?t)))]
                    else searchLocalCallsOf q s)"
          using p0 by (auto simp: searchLocalCallsOf_def)
        show "length (searchLocalCallsOf q ?s') \<le> 1
            \<and> (length (searches ?s') \<le> q \<longrightarrow> searchLocalCallsOf q ?s' = [])
            \<and> (q < length (searches ?s') \<longrightarrow> search_stage (searches ?s' ! q) = AwaitingExists
                 \<longrightarrow> searchLocalCallsOf q ?s' = [])
            \<and> (q < length (searches ?s') \<longrightarrow> search_stage (searches ?s' ! q) = AwaitingSearchLocal
                 \<longrightarrow> length (searchLocalCallsOf q ?s') = 1)"
          unfolding e using a1 b c d True
          by (cases "q = p") (auto simp: nth_list_update)
      qed
    qed
  qed
qed

lemma callsOk_searchLocalAnswered: "callsOk s \<Longrightarrow> callsOk (searchLocalAnswered pf p answer s)"
proof -
  assume a: "callsOk s"
  show ?thesis
  proof (cases "p < length (searches s) \<and> search_stage (searches s ! p) = AwaitingSearchLocal")
    case False
    then show ?thesis using a by (auto simp: searchLocalAnswered_def)
  next
    case True
    then obtain res where "searchLocalAnswered pf p answer s = settle pf p res s"
      by (cases answer) (simp_all add: searchLocalAnswered_def Let_def)
    then show ?thesis using callsOk_settle [OF a] True by simp
  qed
qed

lemma callsOk_cancellationRequested: "callsOk s \<Longrightarrow> callsOk (cancellationRequested tok s)"
  by (simp add: callsOk_def cancellationRequested_def searchLocalCallsOf_def)

lemma callsOk_step: "callsOk s \<Longrightarrow> callsOk (step pf s e)"
  by (cases e)
     (simp_all add: callsOk_Call callsOk_existsAnswered callsOk_searchLocalAnswered
        callsOk_cancellationRequested)

lemma invariants_new: "listenersOk newPathSearch \<and> cacheOk pf newPathSearch \<and> callsOk newPathSearch"
  by (simp add: listenersOk_def cacheOk_def callsOk_def newPathSearch_def searchLocalCallsOf_def)

lemma invariants_run:
  "listenersOk s \<and> cacheOk pf s \<and> callsOk s
   \<Longrightarrow> listenersOk (run pf s es) \<and> cacheOk pf (run pf s es) \<and> callsOk (run pf s es)"
proof (induction es arbitrary: s)
  case Nil
  then show ?case by (simp add: run_Nil)
next
  case (Cons e es)
  have "listenersOk (step pf s e) \<and> cacheOk pf (step pf s e) \<and> callsOk (step pf s e)"
    using Cons.prems listenersOk_step cacheOk_step callsOk_step by blast
  from Cons.IH [OF this] show ?case by (simp add: run_Cons)
qed

lemma invariants_reachable:
  "listenersOk (run pf newPathSearch es) \<and> cacheOk pf (run pf newPathSearch es)
   \<and> callsOk (run pf newPathSearch es)"
  by (rule invariants_run [OF invariants_new])







section \<open>The path search: sharing and eviction\<close>


lemma stage_unchanged_Call:
  "p < length (searches s) \<Longrightarrow>
   search_stage (searches (step pf s (Call item tok)) ! p) = search_stage (searches s ! p)"
  by (auto simp: findKernelSpecsInPath_def Let_def nth_append split: option.splits)

text \<open>
  C2, as the code has it. In a reachable state let the cache hold the pending
  promise \<open>p\<close> under \<open>key\<close>, and let an event settle \<open>p\<close>. If \<open>p\<close> rejects,
  the entry is evicted and the next call for the key starts a new search. If \<open>p\<close>
  resolves, the entry stays and the next call for the key returns \<open>p\<close> and
  changes nothing.
\<close>

theorem settled_search_cache_entry:
  assumes "s = run pf newPathSearch es0"
    and "findKernelSpecsInPathCache s key = Some p"
    and "search_stage (searches s ! p) \<in> {AwaitingExists, AwaitingSearchLocal}"
    and "search_stage (searches (step pf s e) ! p) = Settled res"
    and "cacheKeyOf pf item = key"
  shows "case res of
           Inl ex \<Rightarrow>
             findKernelSpecsInPathCache (step pf s e) key = None
             \<and> fst (findKernelSpecsInPath pf item tok (step pf s e)) = length (searches (step pf s e))
             \<and> searches (snd (findKernelSpecsInPath pf item tok (step pf s e)))
                 = searches (step pf s e) @
                     [\<lparr>search_item = item, search_token = tok, search_stage = AwaitingExists\<rparr>]
         | Inr files \<Rightarrow>
             findKernelSpecsInPathCache (step pf s e) key = Some p
             \<and> findKernelSpecsInPath pf item tok (step pf s e) = (p, step pf s e)"
proof -
  have co: "cacheOk pf s" using assms(1) invariants_reachable by simp
  have pl: "p < length (searches s)"
    and pk: "cacheKeyOf pf (search_item (searches s ! p)) = key"
    using co assms(2) by (auto simp: cacheOk_def)
  have ns: "\<And>r. search_stage (searches s ! p) \<noteq> Settled r"
    using assms(3) by auto
  have hit: "findKernelSpecsInPathCache s' key = Some p
             \<Longrightarrow> findKernelSpecsInPath pf item tok s' = (p, s')" for s'
    using assms(5) by (simp add: findKernelSpecsInPath_def)
  have miss: "findKernelSpecsInPathCache s' key = None
             \<Longrightarrow> fst (findKernelSpecsInPath pf item tok s') = length (searches s')
               \<and> searches (snd (findKernelSpecsInPath pf item tok s'))
                   = searches s' @
                       [\<lparr>search_item = item, search_token = tok, search_stage = AwaitingExists\<rparr>]"
    for s'
    using assms(5) by (simp add: findKernelSpecsInPath_def Let_def)
  show ?thesis
  proof (cases e)
    case (Call item' tok')
    then show ?thesis using assms(4) stage_unchanged_Call [OF pl] ns by simp
  next
    case (CancellationRequested tok')
    then show ?thesis using assms(4) ns by (simp add: cancellationRequested_def)
  next
    case (ExistsAnswered q b)
    show ?thesis
    proof (cases "q = p \<and> search_stage (searches s ! p) = AwaitingExists
                  \<and> \<not> (b \<and> search_token (searches s ! p) \<notin> cancelled s)")
      case True
      then have st: "step pf s e = settle pf p (Inr []) s"
        using ExistsAnswered pl by (auto simp: existsAnswered_def Let_def)
      have "res = Inr []"
        using assms(4) pl by (simp add: st searches_settle)
      moreover have "findKernelSpecsInPathCache (step pf s e) key = Some p"
        using assms(2) by (simp add: st cache_settle)
      ultimately show ?thesis using hit by simp
    next
      case False
      then have "\<And>r. search_stage (searches (step pf s e) ! p) \<noteq> Settled r"
        using ExistsAnswered pl ns
        by (auto simp: existsAnswered_def Let_def searches_settle nth_list_update)
      then show ?thesis using assms(4) by blast
    qed
  next
    case (SearchLocalAnswered q answer)
    show ?thesis
    proof (cases "q = p \<and> search_stage (searches s ! p) = AwaitingSearchLocal")
      case False
      then have "\<And>r. search_stage (searches (step pf s e) ! p) \<noteq> Settled r"
        using SearchLocalAnswered pl ns
        by (cases answer)
           (auto simp: searchLocalAnswered_def Let_def searches_settle nth_list_update)
      then show ?thesis using assms(4) by blast
    next
      case True
      show ?thesis
      proof (cases answer)
        case (Inl ex)
        then have st: "step pf s e = settle pf p (Inl ex) s"
          using SearchLocalAnswered True pl by (simp add: searchLocalAnswered_def Let_def)
        have "res = Inl ex"
          using assms(4) pl by (simp add: st searches_settle)
        moreover have "findKernelSpecsInPathCache (step pf s e) key = None"
          using assms(2) pk by (simp add: st cache_settle evict_def)
        ultimately show ?thesis using miss by simp
      next
        case (Inr files)
        then obtain fs where st: "step pf s e = settle pf p (Inr fs) s"
          using SearchLocalAnswered True pl by (simp add: searchLocalAnswered_def Let_def)
        have "res = Inr fs"
          using assms(4) pl by (simp add: st searches_settle)
        moreover have "findKernelSpecsInPathCache (step pf s e) key = Some p"
          using assms(2) by (simp add: st cache_settle)
        ultimately show ?thesis using hit by simp
      qed
    qed
  qed
qed

lemmas example_search_simps =
  run_def findKernelSpecsInPath_def existsAnswered_def searchLocalAnswered_def
  cancellationRequested_def settle_def evict_def newPathSearch_def cacheKeyOf_def
  searchPathOf_def interpreterOf_def example_search_def example_pending_def
  example_platform_def searchLocalCallsOf_def Let_def

lemma pending_state:
  "findKernelSpecsInPathCache (run (example_platform example_parse) newPathSearch example_pending) ''/k''
     = Some 0"
  "search_stage (searches (run (example_platform example_parse) newPathSearch example_pending) ! 0)
     = AwaitingSearchLocal"
  "searchLocalCalls (run (example_platform example_parse) newPathSearch example_pending)
     = [(0, ''/k'')]"
  by (simp_all add: example_search_simps)


text \<open>
  A search that resolves keeps its cache entry: the next call for the key returns
  the settled promise and starts no search.
\<close>

theorem resolved_search_stays_cached:
  "search_stage (searches (run (example_platform example_parse) newPathSearch
      [Call example_search 0, ExistsAnswered 0 True,
       SearchLocalAnswered 0 (Inr [''py/kernel.json''])]) ! 0)
     = Settled (Inr [\<lparr>file_interpreter = None, kernelSpecFile = Uri_file ''/k/py/kernel.json''\<rparr>])
   \<and> findKernelSpecsInPathCache (run (example_platform example_parse) newPathSearch
      [Call example_search 0, ExistsAnswered 0 True,
       SearchLocalAnswered 0 (Inr [''py/kernel.json''])]) ''/k''
     = Some 0
   \<and> fst (findKernelSpecsInPath (example_platform example_parse) example_search 1
        (run (example_platform example_parse) newPathSearch
           [Call example_search 0, ExistsAnswered 0 True,
            SearchLocalAnswered 0 (Inr [''py/kernel.json''])]))
     = 0
   \<and> length (searches (snd (findKernelSpecsInPath (example_platform example_parse) example_search 1
        (run (example_platform example_parse) newPathSearch
           [Call example_search 0, ExistsAnswered 0 True,
            SearchLocalAnswered 0 (Inr [''py/kernel.json''])]))))
     = 1"
  by (simp add: example_search_simps)


theorem settled_search_cache_entry_witness:
  "findKernelSpecsInPathCache
     (run (example_platform example_parse) newPathSearch
        (example_pending @ [SearchLocalAnswered 0 (Inl (Error ''EACCES''))])) ''/k'' = None
   \<and> fst (findKernelSpecsInPath (example_platform example_parse) example_search 1
        (run (example_platform example_parse) newPathSearch
           (example_pending @ [SearchLocalAnswered 0 (Inl (Error ''EACCES''))]))) = 1"
proof -
  let ?pf = "example_platform example_parse"
  let ?s = "run ?pf newPathSearch example_pending"
  let ?e = "SearchLocalAnswered 0 (Inl (Error ''EACCES''))"
  have h1: "?s = run ?pf newPathSearch example_pending" by simp
  have h2: "findKernelSpecsInPathCache ?s ''/k'' = Some 0" by (simp add: pending_state)
  have h3: "search_stage (searches ?s ! 0) \<in> {AwaitingExists, AwaitingSearchLocal}"
    by (simp add: pending_state)
  have h4: "search_stage (searches (step ?pf ?s ?e) ! 0) = Settled (Inl (Error ''EACCES''))"
    by (simp add: example_search_simps)
  have h5: "cacheKeyOf ?pf example_search = ''/k''"
    by (simp add: cacheKeyOf_def example_search_def example_platform_def)
  note t = settled_search_cache_entry [OF h1 h2 h3 h4 h5, of 1]
  have l: "length (searches (step ?pf ?s ?e)) = 1"
    by (simp add: example_search_simps)
  show ?thesis using t l by (simp add: run_snoc)
qed

end
